theory Spec2Isabelle
  imports Main "HOL-Library.Word" "HOL-Library.Signed_Division" "HOL-Library.AList"
begin

unbundle bit_operations_syntax

section \<open>Shared types\<close>

text \<open>
  \<^verbatim>\<open>FrameType\<close> is a Go integer enumeration whose zero value is \<^verbatim>\<open>FrameTypeKey\<close>.
  In \<^verbatim>\<open>RTPVideoHeader\<close> the fields \<^verbatim>\<open>PictureID int32\<close>, \<^verbatim>\<open>TemporalIdx int8\<close> and
  \<^verbatim>\<open>TL0PicIdx int16\<close> use \<open>-1\<close> for "absent"; they are modelled as \<open>int\<close>.
\<close>

datatype FrameType = FrameTypeKey | FrameTypeDelta

definition NoPictureID :: int where "NoPictureID = - 1"
definition NoTemporalIdx :: int where "NoTemporalIdx = - 1"
definition NoTL0PicIdx :: int where "NoTL0PicIdx = - 1"

record RTPVideoHeader =
  FrameType :: FrameType
  IsFirstPacketInFrame :: bool
  IsLastPacketInFrame :: bool
  PictureID :: int
  TemporalIdx :: int
  TL0PicIdx :: int

text \<open>
  \<^verbatim>\<open>BufferedPacket\<close>: the sequence number is the unwrapped \<^verbatim>\<open>int64\<close> (an \<open>int\<close> here:
  the buffer only adds and subtracts the buffer size, far from the 64-bit bounds for
  any value the unwrapper can produce).  \<^verbatim>\<open>VideoHeader\<close> is a pointer that may be
  \<^verbatim>\<open>nil\<close>, hence an option.  The Go buffer stores pointers to packets; the model
  stores the packets themselves, so writing \<^verbatim>\<open>Continuous\<close> through the pointer is an
  update of the slot.
\<close>

record BufferedPacket =
  SequenceNumber :: int
  Timestamp :: "32 word"
  Payload :: "8 word list"
  VideoHeader :: "RTPVideoHeader option"
  Continuous :: bool
  MarkerBit :: bool

text \<open>
  \<^verbatim>\<open>EncodedFrame\<close>.  The fields \<open>frame_Timestamp\<close> and \<open>frame_FrameType\<close> are the Go
  fields \<^verbatim>\<open>Timestamp\<close> and \<^verbatim>\<open>FrameType\<close> (renamed, the packet and the header have
  fields of the same names).  \<^verbatim>\<open>References\<close> is the array \<^verbatim>\<open>[5]int64\<close>, a list of
  length five.

  Modelled from the spec: the fields \<open>FirstSeqNumUnwrapped\<close> and \<open>LastSeqNumUnwrapped\<close>
  (\<^verbatim>\<open>first_seq_num_unwrapped\<close>, \<^verbatim>\<open>last_seq_num_unwrapped: i64\<close>).  The struct declaration
  at hand does not list them, while \<^verbatim>\<open>SeqNumOnlyRefFinder\<close> and its tests read and
  write them.
\<close>

record EncodedFrame =
  ID :: int
  FirstSeqNum :: "16 word"
  LastSeqNum :: "16 word"
  FirstSeqNumUnwrapped :: int
  LastSeqNumUnwrapped :: int
  frame_Timestamp :: "32 word"
  frame_FrameType :: FrameType
  Data :: "8 word list"
  Width :: "32 word"
  Height :: "32 word"
  NumReferences :: int
  References :: "int list"

section \<open>Frame assembler\<close>

text \<open>
  \<^verbatim>\<open>VideoFrameAssembler\<close> holds the atomic counter \<^verbatim>\<open>frameIDCounter\<close>.
  \<^verbatim>\<open>AssembleFrame\<close> returns \<^verbatim>\<open>nil\<close> on an empty slice (\<open>None\<close>), and otherwise a
  frame built by the struct literal, whose unnamed fields have Go's zero values.
  \<^verbatim>\<open>frameIDCounter.Add(1) - 1\<close> returns the counter's old value and increments it.
\<close>

record VideoFrameAssembler =
  frameIDCounter :: int

definition NewVideoFrameAssembler :: VideoFrameAssembler where
  "NewVideoFrameAssembler = \<lparr>frameIDCounter = 0\<rparr>"

definition AssembleFrame ::
  "VideoFrameAssembler \<Rightarrow> BufferedPacket list \<Rightarrow> VideoFrameAssembler \<times> EncodedFrame option" where
  "AssembleFrame a packets =
     (if length packets = 0 then (a, None)
      else
        let data = foldl (\<lambda>d pkt. d @ Payload pkt) [] packets;
            firstPkt = packets ! 0;
            lastPkt = packets ! (length packets - 1);
            frameID = frameIDCounter a + 1 - 1;
            a' = a\<lparr>frameIDCounter := frameIDCounter a + 1\<rparr>;
            frame = \<lparr>ID = frameID,
                     FirstSeqNum = word_of_int (SequenceNumber firstPkt AND 0xFFFF),
                     LastSeqNum = word_of_int (SequenceNumber lastPkt AND 0xFFFF),
                     FirstSeqNumUnwrapped = 0,
                     LastSeqNumUnwrapped = 0,
                     frame_Timestamp = Timestamp firstPkt,
                     frame_FrameType = FrameTypeKey,
                     Data = data,
                     Width = 0,
                     Height = 0,
                     NumReferences = 0,
                     References = replicate 5 0\<rparr>;
            frame = (case VideoHeader firstPkt of
                       Some h \<Rightarrow> frame\<lparr>frame_FrameType := FrameType h\<rparr>
                     | None \<Rightarrow> frame)
        in (a', Some frame))"

section \<open>Packet buffer\<close>

text \<open>
  \<^verbatim>\<open>VideoPacketBuffer\<close>: \<open>buffer\<close> is the slice of slots (\<open>None\<close> for \<^verbatim>\<open>nil\<close>) and
  \<open>bsize\<close> the field \<^verbatim>\<open>size uint16\<close>, which the code only reads as \<^verbatim>\<open>int64(b.size)\<close>.
  The constructor accepts the powers of two from 64 to 2048.
\<close>

record VideoPacketBuffer =
  buffer :: "BufferedPacket option list"
  bsize :: nat

record InsertResult =
  Frames :: "BufferedPacket list list"

definition NewVideoPacketBuffer :: "16 word \<Rightarrow> VideoPacketBuffer option" where
  "NewVideoPacketBuffer sz =
     (if sz = 0 \<or> (sz AND (sz - 1)) \<noteq> 0 \<or> sz < 64 \<or> sz > 2048 then None
      else Some \<lparr>buffer = replicate (unat sz) None, bsize = unat sz\<rparr>)"

text \<open>Go's \<^verbatim>\<open>%\<close> truncates towards zero (\<open>smod\<close>); a negative remainder is shifted up.\<close>

definition seqNumToIndex :: "VideoPacketBuffer \<Rightarrow> int \<Rightarrow> nat" where
  "seqNumToIndex b seqNum =
     (let idx = seqNum smod int (bsize b);
          idx = (if idx < 0 then idx + int (bsize b) else idx)
      in nat idx)"

definition isFirst :: "BufferedPacket \<Rightarrow> bool" where
  "isFirst pkt = (case VideoHeader pkt of None \<Rightarrow> False | Some h \<Rightarrow> IsFirstPacketInFrame h)"

definition isLast :: "BufferedPacket \<Rightarrow> bool" where
  "isLast pkt = (case VideoHeader pkt of None \<Rightarrow> False | Some h \<Rightarrow> IsLastPacketInFrame h)"

definition potentialNewFrame :: "VideoPacketBuffer \<Rightarrow> int \<Rightarrow> bool" where
  "potentialNewFrame b seqNum =
     (case buffer b ! seqNumToIndex b seqNum of
        None \<Rightarrow> False
      | Some pkt \<Rightarrow>
          if SequenceNumber pkt \<noteq> seqNum then False
          else if isFirst pkt then True
          else
            (case buffer b ! seqNumToIndex b (seqNum - 1) of
               None \<Rightarrow> False
             | Some prevPkt \<Rightarrow>
                 if SequenceNumber prevPkt \<noteq> seqNum - 1 then False
                 else if Timestamp prevPkt \<noteq> Timestamp pkt then False
                 else Continuous prevPkt))"

text \<open>
  The first loop of \<^verbatim>\<open>extractFrame\<close> walks backwards from \<open>endSeqNum\<close> to the packet
  that starts the frame; it gives up on a missing packet and after more than \<open>size\<close>
  steps.
\<close>

function findFrameStart :: "VideoPacketBuffer \<Rightarrow> int \<Rightarrow> int \<Rightarrow> int option" where
  "findFrameStart b endSeqNum startSeqNum =
     (case buffer b ! seqNumToIndex b startSeqNum of
        None \<Rightarrow> None
      | Some pkt \<Rightarrow>
          if SequenceNumber pkt \<noteq> startSeqNum then None
          else if isFirst pkt then Some startSeqNum
          else if endSeqNum - (startSeqNum - 1) > int (bsize b) then None
          else findFrameStart b endSeqNum (startSeqNum - 1))"
  by pat_completeness auto
termination
  by (relation "measure (\<lambda>(b, e, s). nat (int (bsize b) + 1 - (e - s)))") auto

text \<open>The second loop collects the packets from the start to the end of the frame.\<close>

fun collectPackets :: "VideoPacketBuffer \<Rightarrow> int list \<Rightarrow> BufferedPacket list option" where
  "collectPackets b [] = Some []"
| "collectPackets b (seq # seqs) =
     (case buffer b ! seqNumToIndex b seq of
        None \<Rightarrow> None
      | Some pkt \<Rightarrow>
          if SequenceNumber pkt \<noteq> seq then None
          else if \<not> Continuous pkt then None
          else (case collectPackets b seqs of
                  None \<Rightarrow> None
                | Some packets \<Rightarrow> Some (pkt # packets)))"

definition extractFrame :: "VideoPacketBuffer \<Rightarrow> int \<Rightarrow> BufferedPacket list" where
  "extractFrame b endSeqNum =
     (case findFrameStart b endSeqNum endSeqNum of
        None \<Rightarrow> []
      | Some startSeqNum \<Rightarrow>
          (case collectPackets b [startSeqNum..endSeqNum] of
             None \<Rightarrow> []
           | Some packets \<Rightarrow> packets))"

definition clearSlot :: "VideoPacketBuffer \<Rightarrow> BufferedPacket \<Rightarrow> VideoPacketBuffer" where
  "clearSlot b pkt = b\<lparr>buffer := (buffer b)[seqNumToIndex b (SequenceNumber pkt) := None]\<rparr>"

text \<open>One iteration of the loop of \<^verbatim>\<open>findFrames\<close>, on the state (buffer, result).\<close>

definition findFrames_step ::
  "int \<Rightarrow> VideoPacketBuffer \<times> BufferedPacket list list \<Rightarrow> nat
     \<Rightarrow> VideoPacketBuffer \<times> BufferedPacket list list" where
  "findFrames_step seqNum st i =
     (case st of (b, result) \<Rightarrow>
        let currentSeq = seqNum - int (bsize b) div 2 + int i in
        if \<not> potentialNewFrame b currentSeq then (b, result)
        else
          let index = seqNumToIndex b currentSeq in
          (case buffer b ! index of
             None \<Rightarrow> (b, result)
           | Some pkt \<Rightarrow>
               let pkt' = pkt\<lparr>Continuous := True\<rparr>;
                   b' = b\<lparr>buffer := (buffer b)[index := Some pkt']\<rparr>
               in if isLast pkt' then
                    (let frame = extractFrame b' currentSeq in
                     if length frame > 0
                     then (foldl clearSlot b' frame, result @ [frame])
                     else (b', result))
                  else (b', result)))"

definition findFrames ::
  "VideoPacketBuffer \<Rightarrow> int \<Rightarrow> VideoPacketBuffer \<times> BufferedPacket list list" where
  "findFrames b seqNum = foldl (findFrames_step seqNum) (b, []) [0..<bsize b]"

definition InsertPacket ::
  "VideoPacketBuffer \<Rightarrow> BufferedPacket \<Rightarrow> VideoPacketBuffer \<times> InsertResult" where
  "InsertPacket b pkt =
     (let seqNum = SequenceNumber pkt;
          index = seqNumToIndex b seqNum;
          duplicate = (case buffer b ! index of
                         None \<Rightarrow> False
                       | Some old \<Rightarrow> SequenceNumber old = seqNum)
      in if duplicate then (b, \<lparr>Frames = []\<rparr>)
         else
           let b1 = (if buffer b ! index \<noteq> None
                     then b\<lparr>buffer := (buffer b)[index := None]\<rparr> else b);
               b2 = b1\<lparr>buffer := (buffer b1)[index := Some (pkt\<lparr>Continuous := False\<rparr>)]\<rparr>;
               (b3, frames) = findFrames b2 seqNum
           in (b3, \<lparr>Frames = frames\<rparr>))"

text \<open>Delivering a list of packets one after the other, collecting the frames returned.\<close>

fun InsertPackets ::
  "VideoPacketBuffer \<Rightarrow> BufferedPacket list \<Rightarrow> VideoPacketBuffer \<times> BufferedPacket list list" where
  "InsertPackets b [] = (b, [])"
| "InsertPackets b (pkt # pkts) =
     (case InsertPacket b pkt of
        (b', r) \<Rightarrow> (case InsertPackets b' pkts of (b'', fs) \<Rightarrow> (b'', Frames r @ fs)))"

text \<open>
  The states of the buffer the constructor and \<^verbatim>\<open>InsertPacket\<close> can produce have as
  many slots as \<open>bsize\<close> says, and \<open>bsize\<close> is positive.
\<close>

definition wf_buffer :: "VideoPacketBuffer \<Rightarrow> bool" where
  "wf_buffer b = (0 < bsize b \<and> length (buffer b) = bsize b)"

subsection \<open>Notions used to state properties of the buffer\<close>

text \<open>The slot a sequence number maps to, and whether that slot holds exactly that number.\<close>

definition slotAt :: "VideoPacketBuffer \<Rightarrow> int \<Rightarrow> BufferedPacket option" where
  "slotAt b seqNum = buffer b ! seqNumToIndex b seqNum"

definition holds :: "VideoPacketBuffer \<Rightarrow> int \<Rightarrow> bool" where
  "holds b seqNum = (case slotAt b seqNum of None \<Rightarrow> False | Some q \<Rightarrow> SequenceNumber q = seqNum)"

text \<open>The write of a non-duplicate packet into its slot, as \<^verbatim>\<open>InsertPacket\<close> does it.\<close>

definition storePacket :: "VideoPacketBuffer \<Rightarrow> BufferedPacket \<Rightarrow> VideoPacketBuffer" where
  "storePacket b pkt =
     b\<lparr>buffer := (buffer b)[seqNumToIndex b (SequenceNumber pkt) := Some (pkt\<lparr>Continuous := False\<rparr>)]\<rparr>"

text \<open>The write of \<^verbatim>\<open>Continuous = true\<close> through the slot's pointer, in \<^verbatim>\<open>findFrames\<close>.\<close>

definition markContinuous :: "VideoPacketBuffer \<Rightarrow> int \<Rightarrow> BufferedPacket \<Rightarrow> VideoPacketBuffer" where
  "markContinuous b cur pkt =
     b\<lparr>buffer := (buffer b)[seqNumToIndex b cur := Some (pkt\<lparr>Continuous := True\<rparr>)]\<rparr>"

text \<open>
  Every packet of the frame \<open>f\<close> has a smaller sequence number than every packet of the
  frame \<open>g\<close>.
\<close>

definition frame_before :: "BufferedPacket list \<Rightarrow> BufferedPacket list \<Rightarrow> bool" where
  "frame_before f g = list_all (\<lambda>p. list_all (\<lambda>q. SequenceNumber p < SequenceNumber q) g) f"

text \<open>
  A frame whose sequence numbers form the run from its first to its last packet, whose
  first packet starts a frame and whose last packet ends one.
\<close>

definition good_frame :: "BufferedPacket list \<Rightarrow> bool" where
  "good_frame f =
     (f \<noteq> [] \<and> map SequenceNumber f = [SequenceNumber (hd f)..SequenceNumber (last f)]
      \<and> isFirst (hd f) \<and> isLast (last f))"

text \<open>All packets of a frame carry the timestamp of its first packet.\<close>

definition one_timestamp :: "BufferedPacket list \<Rightarrow> bool" where
  "one_timestamp f = list_all (\<lambda>p. Timestamp p = Timestamp (hd f)) f"

text \<open>
  How the content \<open>r\<close> of a slot after a scan relates to its content \<open>r0\<close> before: it
  is the same, or the same packet marked continuous, or the slot was emptied and the
  packet, marked continuous, is part of one of the frames returned.
\<close>

definition slot_rel ::
  "BufferedPacket list list \<Rightarrow> BufferedPacket option \<Rightarrow> BufferedPacket option \<Rightarrow> bool" where
  "slot_rel frames r0 r =
     (r = r0 \<or>
      (case r0 of
         None \<Rightarrow> False
       | Some p0 \<Rightarrow>
           r = Some (p0\<lparr>Continuous := True\<rparr>) \<or>
           (r = None \<and> list_ex (\<lambda>f. p0\<lparr>Continuous := True\<rparr> \<in> set f) frames)))"

text \<open>
  The invariant of the loop of \<^verbatim>\<open>findFrames\<close> when it is about to look at the
  sequence number \<open>cur\<close>: the frames found so far lie below \<open>cur\<close>, their packets are no
  longer in the buffer, and they are listed in ascending order.
\<close>

definition emitted_below :: "int \<Rightarrow> VideoPacketBuffer \<Rightarrow> BufferedPacket list list \<Rightarrow> bool" where
  "emitted_below cur b result =
     ((\<forall>f\<in>set result. \<forall>p\<in>set f. SequenceNumber p < cur \<and> \<not> holds b (SequenceNumber p))
      \<and> sorted_wrt frame_before result)"

definition scan_inv ::
  "VideoPacketBuffer \<Rightarrow> int \<Rightarrow> VideoPacketBuffer \<times> BufferedPacket list list \<Rightarrow> bool" where
  "scan_inv b0 cur st =
     (case st of (b, result) \<Rightarrow>
        wf_buffer b \<and> bsize b = bsize b0 \<and> emitted_below cur b result
        \<and> list_all good_frame result
        \<and> (\<forall>i<length (buffer b0). slot_rel result (buffer b0 ! i) (buffer b ! i)))"

subsection \<open>Packets and buffers used in the examples\<close>

text \<open>
  A packet as the tests of the repository build it: sequence number, timestamp, payload
  and a header with the two frame boundary flags; all other fields have Go's zero values.
\<close>

definition test_packet :: "int \<Rightarrow> 32 word \<Rightarrow> 8 word list \<Rightarrow> bool \<Rightarrow> bool \<Rightarrow> BufferedPacket" where
  "test_packet s t pl f l =
     \<lparr>SequenceNumber = s, Timestamp = t, Payload = pl,
      VideoHeader = Some \<lparr>FrameType = FrameTypeKey, IsFirstPacketInFrame = f,
                          IsLastPacketInFrame = l, PictureID = 0, TemporalIdx = 0,
                          TL0PicIdx = 0\<rparr>,
      Continuous = False, MarkerBit = False\<rparr>"

definition buffer64 :: VideoPacketBuffer where
  "buffer64 = \<lparr>buffer = replicate 64 None, bsize = 64\<rparr>"

text \<open>
  A stream that delivers the sequence number 0 twice with different timestamps, the
  second time after the slot was taken by the sequence number 64.
\<close>

definition stale_stream :: "BufferedPacket list" where
  "stale_stream =
     [test_packet 0 1 [] True False,
      test_packet 1 1 [] False False,
      test_packet 64 1 [] False False,
      test_packet 0 2 [] True False]"

text \<open>
  A stream that leaves two frames waiting for one packet: the frame 100..132, whose last
  packet the scan around 100 did not reach, and the frame 133..134 without its first
  packet.
\<close>

definition gap_stream :: "BufferedPacket list" where
  "gap_stream =
     [test_packet 134 2 [] False True, test_packet 132 1 [] False True]
     @ map (\<lambda>s. test_packet s 1 [] False False) [101..131]
     @ [test_packet 100 1 [] True False]"

section \<open>Sequence-number unwrapper (receiver pipeline)\<close>

text \<open>
  The Go struct \<^verbatim>\<open>sequenceUnwrapper\<close> holds \<^verbatim>\<open>lastSeq int64\<close> and \<^verbatim>\<open>started bool\<close>.
  The 64-bit field is modelled as an unbounded \<open>int\<close>: every call moves it by at most
  \<open>2^15\<close>, so it stays far inside the 64-bit range for any stream that can be
  received. The input is a \<open>uint16\<close>, modelled as a \<open>16 word\<close>.  Go's \<^verbatim>\<open>&\<close> on a
  negative \<^verbatim>\<open>int64\<close> is the two's complement conjunction, which is what \<open>AND\<close> on
  \<open>int\<close> computes.
\<close>

record sequenceUnwrapper =
  lastSeq :: int
  started :: bool

definition new_sequenceUnwrapper :: sequenceUnwrapper where
  "new_sequenceUnwrapper = \<lparr>lastSeq = 0, started = False\<rparr>"

definition unwrap :: "sequenceUnwrapper \<Rightarrow> 16 word \<Rightarrow> sequenceUnwrapper \<times> int" where
  "unwrap u seq =
     (if \<not> started u then (u\<lparr>lastSeq := uint seq, started := True\<rparr>, uint seq)
      else
        let diff = uint seq - (lastSeq u AND 0xFFFF);
            diff = (if diff > 32768 then diff - 65536
                    else if diff < - 32768 then diff + 65536 else diff);
            l = lastSeq u + diff
        in (u\<lparr>lastSeq := l\<rparr>, l))"

text \<open>The receiver calls \<open>unwrap\<close> once per packet; \<open>unwrap_all\<close> collects the outputs.\<close>

fun unwrap_all :: "sequenceUnwrapper \<Rightarrow> 16 word list \<Rightarrow> int list" where
  "unwrap_all u [] = []"
| "unwrap_all u (s # ss) = (case unwrap u s of (u', l) \<Rightarrow> l # unwrap_all u' ss)"

text \<open>
  The unwrapper as the specification words it: the difference is normalised into the
  half-open interval \<open>(-2^15, 2^15]\<close>.
\<close>

definition unwrap_spec :: "sequenceUnwrapper \<Rightarrow> 16 word \<Rightarrow> sequenceUnwrapper \<times> int" where
  "unwrap_spec u seq =
     (if \<not> started u then (u\<lparr>lastSeq := uint seq, started := True\<rparr>, uint seq)
      else
        let diff = uint seq - (lastSeq u mod 2 ^ 16);
            diff = (if diff > 2 ^ 15 then diff - 2 ^ 16
                    else if diff \<le> - (2 ^ 15) then diff + 2 ^ 16 else diff);
            l = lastSeq u + diff
        in (u\<lparr>lastSeq := l\<rparr>, l))"

text \<open>The normalisation the code performs: the closed interval \<open>[-2^15, 2^15]\<close>.\<close>

definition unwrap_closed :: "sequenceUnwrapper \<Rightarrow> 16 word \<Rightarrow> sequenceUnwrapper \<times> int" where
  "unwrap_closed u seq =
     (if \<not> started u then (u\<lparr>lastSeq := uint seq, started := True\<rparr>, uint seq)
      else
        let diff = uint seq - (lastSeq u mod 2 ^ 16);
            diff = (if diff > 2 ^ 15 then diff - 2 ^ 16
                    else if diff < - (2 ^ 15) then diff + 2 ^ 16 else diff);
            l = lastSeq u + diff
        in (u\<lparr>lastSeq := l\<rparr>, l))"

text \<open>Consecutive real values that differ by less than \<open>2^15\<close> in magnitude.\<close>

fun small_steps :: "int list \<Rightarrow> bool" where
  "small_steps (a # b # rs) = (\<bar>b - a\<bar> < 32768 \<and> small_steps (b # rs))"
| "small_steps _ = True"

definition wire :: "int \<Rightarrow> 16 word" where
  "wire r = word_of_int r"

text \<open>
  The wire value \<open>b\<close> follows the wire value \<open>a\<close> in increasing direction modulo
  \<open>2^16\<close>: the 16-bit difference lies strictly between \<open>0\<close> and \<open>2^15\<close>.
\<close>

definition wire_ascends :: "16 word \<Rightarrow> 16 word \<Rightarrow> bool" where
  "wire_ascends a b = (0 < uint (b - a) \<and> uint (b - a) < 32768)"

section \<open>Reference finder on sequence numbers only\<close>

text \<open>
  \<^verbatim>\<open>SeqNumOnlyRefFinder\<close>.  The three sequence numbers are unwrapped \<^verbatim>\<open>int64\<close> values
  (\<open>int\<close> here).  The stash holds pointers to frames together with their headers; the
  header may be \<^verbatim>\<open>nil\<close>.  Frames are passed by pointer and written in place; the model
  returns the written frames.
\<close>

record stashedSeqNumFrame =
  sFrame :: EncodedFrame
  sHeader :: "RTPVideoHeader option"

record SeqNumOnlyRefFinder =
  lastSeqNumGOP :: int
  lastFrameFirstSeqNum :: int
  lastFrameLastSeqNum :: int
  gotInitialFrame :: bool
  stashedFrames :: "stashedSeqNumFrame list"

definition maxStashedFrames :: nat where
  "maxStashedFrames = 100"

definition NewSeqNumOnlyRefFinder :: SeqNumOnlyRefFinder where
  "NewSeqNumOnlyRefFinder =
     \<lparr>lastSeqNumGOP = - 1, lastFrameFirstSeqNum = - 1, lastFrameLastSeqNum = - 1,
      gotInitialFrame = False, stashedFrames = []\<rparr>"

text \<open>
  \<^verbatim>\<open>stashFrame\<close> drops the oldest entry of a full stash, appends the frame and sorts by
  the first unwrapped sequence number.  Go's \<^verbatim>\<open>sort.Slice\<close> leaves the order of entries
  with equal keys open; the model sorts stably.
\<close>

definition stashFrame ::
  "SeqNumOnlyRefFinder \<Rightarrow> EncodedFrame \<Rightarrow> RTPVideoHeader option \<Rightarrow> SeqNumOnlyRefFinder" where
  "stashFrame f frame header =
     (let st = (if length (stashedFrames f) \<ge> maxStashedFrames
                then drop 1 (stashedFrames f) else stashedFrames f);
          st = st @ [\<lparr>sFrame = frame, sHeader = header\<rparr>]
      in f\<lparr>stashedFrames := sort_key (\<lambda>s. FirstSeqNumUnwrapped (sFrame s)) st\<rparr>)"

definition clearStashedFramesBefore :: "SeqNumOnlyRefFinder \<Rightarrow> int \<Rightarrow> SeqNumOnlyRefFinder" where
  "clearStashedFramesBefore f seqNum =
     f\<lparr>stashedFrames := filter (\<lambda>s. FirstSeqNumUnwrapped (sFrame s) \<ge> seqNum) (stashedFrames f)\<rparr>"

text \<open>
  The inner loop of \<^verbatim>\<open>tryResolveStashedFrames\<close>: the index of the first stashed frame
  that starts at the expected sequence number.
\<close>

fun findResolvable :: "int \<Rightarrow> stashedSeqNumFrame list \<Rightarrow> nat option" where
  "findResolvable expected [] = None"
| "findResolvable expected (s # ss) =
     (if FirstSeqNumUnwrapped (sFrame s) = expected then Some 0
      else map_option Suc (findResolvable expected ss))"

lemma findResolvable_less: "findResolvable e ss = Some i \<Longrightarrow> i < length ss"
  by (induction ss arbitrary: i) (auto split: if_splits)

text \<open>The write of a resolved delta frame: its identifier and its single reference.\<close>

definition setDeltaReference :: "EncodedFrame \<Rightarrow> int \<Rightarrow> EncodedFrame" where
  "setDeltaReference frame ref =
     frame\<lparr>ID := FirstSeqNumUnwrapped frame, NumReferences := 1,
           References := (References frame)[0 := ref]\<rparr>"

function tryResolveStashedFrames ::
  "SeqNumOnlyRefFinder \<Rightarrow> SeqNumOnlyRefFinder \<times> EncodedFrame list" where
  "tryResolveStashedFrames f =
     (case findResolvable (lastFrameLastSeqNum f + 1) (stashedFrames f) of
        None \<Rightarrow> (f, [])
      | Some i \<Rightarrow>
          let stashed = stashedFrames f ! i;
              frame = setDeltaReference (sFrame stashed) (lastFrameFirstSeqNum f);
              f' = f\<lparr>lastFrameFirstSeqNum := FirstSeqNumUnwrapped (sFrame stashed),
                     lastFrameLastSeqNum := LastSeqNumUnwrapped (sFrame stashed),
                     stashedFrames := take i (stashedFrames f) @ drop (i + 1) (stashedFrames f)\<rparr>
          in (case tryResolveStashedFrames f' of (f'', result) \<Rightarrow> (f'', frame # result)))"
  by pat_completeness auto
termination
  by (relation "measure (\<lambda>f. length (stashedFrames f))")
     (auto dest: findResolvable_less)

definition SeqNumOnly_handleKeyframe ::
  "SeqNumOnlyRefFinder \<Rightarrow> EncodedFrame \<Rightarrow> RTPVideoHeader option
     \<Rightarrow> SeqNumOnlyRefFinder \<times> EncodedFrame list" where
  "SeqNumOnly_handleKeyframe f frame header =
     (let frame = frame\<lparr>ID := FirstSeqNumUnwrapped frame, NumReferences := 0\<rparr>;
          f = f\<lparr>lastSeqNumGOP := FirstSeqNumUnwrapped frame,
                lastFrameFirstSeqNum := FirstSeqNumUnwrapped frame,
                lastFrameLastSeqNum := LastSeqNumUnwrapped frame,
                gotInitialFrame := True\<rparr>;
          f = clearStashedFramesBefore f (FirstSeqNumUnwrapped frame)
      in (case tryResolveStashedFrames f of (f', resolved) \<Rightarrow> (f', [frame] @ resolved)))"

definition SeqNumOnly_handleDeltaFrame ::
  "SeqNumOnlyRefFinder \<Rightarrow> EncodedFrame \<Rightarrow> RTPVideoHeader option
     \<Rightarrow> SeqNumOnlyRefFinder \<times> EncodedFrame list" where
  "SeqNumOnly_handleDeltaFrame f frame header =
     (if \<not> gotInitialFrame f then (stashFrame f frame header, [])
      else
        let expectedFirstSeqNum = lastFrameLastSeqNum f + 1 in
        if FirstSeqNumUnwrapped frame = expectedFirstSeqNum then
          (let frame = setDeltaReference frame (lastFrameFirstSeqNum f);
               f = f\<lparr>lastFrameFirstSeqNum := FirstSeqNumUnwrapped frame,
                     lastFrameLastSeqNum := LastSeqNumUnwrapped frame\<rparr>
           in (case tryResolveStashedFrames f of (f', resolved) \<Rightarrow> (f', [frame] @ resolved)))
        else if FirstSeqNumUnwrapped frame < lastSeqNumGOP f then (f, [])
        else (stashFrame f frame header, []))"

definition SeqNumOnly_ManageFrame ::
  "SeqNumOnlyRefFinder \<Rightarrow> EncodedFrame option \<Rightarrow> RTPVideoHeader option
     \<Rightarrow> SeqNumOnlyRefFinder \<times> EncodedFrame list" where
  "SeqNumOnly_ManageFrame f frame header =
     (case frame of
        None \<Rightarrow> (f, [])
      | Some frame \<Rightarrow>
          if frame_FrameType frame = FrameTypeKey then SeqNumOnly_handleKeyframe f frame header
          else SeqNumOnly_handleDeltaFrame f frame header)"

text \<open>Feeding a list of frames to the finder, collecting what it emits.\<close>

fun SeqNumOnly_ManageFrames ::
  "SeqNumOnlyRefFinder \<Rightarrow> (EncodedFrame \<times> RTPVideoHeader option) list
     \<Rightarrow> SeqNumOnlyRefFinder \<times> EncodedFrame list" where
  "SeqNumOnly_ManageFrames f [] = (f, [])"
| "SeqNumOnly_ManageFrames f ((frame, header) # rest) =
     (case SeqNumOnly_ManageFrame f (Some frame) header of
        (f', out) \<Rightarrow>
          (case SeqNumOnly_ManageFrames f' rest of (f'', outs) \<Rightarrow> (f'', out @ outs)))"

section \<open>Reference finder on picture identifiers only\<close>

text \<open>
  \<^verbatim>\<open>pictureIDUnwrapper\<close> unwraps 15-bit picture identifiers; a negative input passes
  through as \<open>-1\<close> without touching the state.
\<close>

record pictureIDUnwrapper =
  pid_lastUnwrapped :: int
  pid_initialized :: bool

definition pictureIDModulus :: int where
  "pictureIDModulus = 32768"

definition pictureID_Unwrap :: "pictureIDUnwrapper \<Rightarrow> int \<Rightarrow> pictureIDUnwrapper \<times> int" where
  "pictureID_Unwrap u pictureID =
     (if pictureID < 0 then (u, - 1)
      else
        let pid = pictureID AND (pictureIDModulus - 1) in
        if \<not> pid_initialized u
        then (u\<lparr>pid_initialized := True, pid_lastUnwrapped := pid\<rparr>, pid)
        else
          let lastWrapped = pid_lastUnwrapped u AND (pictureIDModulus - 1);
              diff = pid - lastWrapped;
              diff = (if diff > pictureIDModulus div 2 then diff - pictureIDModulus
                      else if diff < - (pictureIDModulus div 2) then diff + pictureIDModulus
                      else diff);
              l = pid_lastUnwrapped u + diff
          in (u\<lparr>pid_lastUnwrapped := l\<rparr>, l))"





text \<open>
  The frames one call emits after a frame with the given first and last sequence
  number: each starts right after its predecessor ends, has its first sequence number
  as identifier and refers to the first sequence number of its predecessor.
\<close>

fun resolved_chain :: "int \<Rightarrow> int \<Rightarrow> EncodedFrame list \<Rightarrow> bool" where
  "resolved_chain prevFirst prevLast [] = True"
| "resolved_chain prevFirst prevLast (e # es) =
     (ID e = FirstSeqNumUnwrapped e \<and> NumReferences e = 1 \<and> References e ! 0 = prevFirst
      \<and> FirstSeqNumUnwrapped e = prevLast + 1
      \<and> resolved_chain (FirstSeqNumUnwrapped e) (LastSeqNumUnwrapped e) es)"





section \<open>Reference finder on VP8 temporal layers\<close>

text \<open>
  \<^verbatim>\<open>tl0PicIdxUnwrapper\<close> unwraps the 8-bit TL0PICIDX like the picture identifier.
\<close>

record tl0PicIdxUnwrapper =
  tl0_lastUnwrapped :: int
  tl0_initialized :: bool

definition tl0PicIdxModulus :: int where
  "tl0PicIdxModulus = 256"

definition maxTemporalLayers :: int where
  "maxTemporalLayers = 4"

definition tl0PicIdx_Unwrap :: "tl0PicIdxUnwrapper \<Rightarrow> int \<Rightarrow> tl0PicIdxUnwrapper \<times> int" where
  "tl0PicIdx_Unwrap u tl0PicIdx =
     (if tl0PicIdx < 0 then (u, - 1)
      else
        let idx = tl0PicIdx AND (tl0PicIdxModulus - 1) in
        if \<not> tl0_initialized u
        then (u\<lparr>tl0_initialized := True, tl0_lastUnwrapped := idx\<rparr>, idx)
        else
          let lastWrapped = tl0_lastUnwrapped u AND (tl0PicIdxModulus - 1);
              diff = idx - lastWrapped;
              diff = (if diff > tl0PicIdxModulus div 2 then diff - tl0PicIdxModulus
                      else if diff < - (tl0PicIdxModulus div 2) then diff + tl0PicIdxModulus
                      else diff);
              l = tl0_lastUnwrapped u + diff
          in (u\<lparr>tl0_lastUnwrapped := l\<rparr>, l))"

text \<open>
  \<^verbatim>\<open>VP8RefFinder\<close>.  The Go map \<^verbatim>\<open>layerInfo\<close> from unwrapped TL0PICIDX to an array
  of four entries is an association list with distinct keys.  Go iterates over a map in
  an unspecified order; where the code does so (\<^verbatim>\<open>getReferences\<close>, last resort) the
  model takes the order of the list, which stands for one of the possible orders.
  A stashed entry keeps the frame, its header and the two unwrapped values.

  Indexing the array with a negative temporal index makes the Go code panic; the
  functions that can reach this write return \<open>None\<close> for the panic.
\<close>

record stashedVP8Frame =
  vFrame :: EncodedFrame
  vHeader :: RTPVideoHeader
  unwrappedPID :: int
  unwrappedTL0 :: int

record VP8RefFinder =
  pictureIDUnwrapper :: pictureIDUnwrapper
  tl0Unwrapper :: tl0PicIdxUnwrapper
  layerInfo :: "(int \<times> int list) list"
  lastPictureID :: int
  vp8_gotInitialFrame :: bool
  vp8_stashedFrames :: "stashedVP8Frame list"

definition NewVP8RefFinder :: VP8RefFinder where
  "NewVP8RefFinder =
     \<lparr>pictureIDUnwrapper = \<lparr>pid_lastUnwrapped = 0, pid_initialized = False\<rparr>,
      tl0Unwrapper = \<lparr>tl0_lastUnwrapped = 0, tl0_initialized = False\<rparr>,
      layerInfo = [], lastPictureID = - 1, vp8_gotInitialFrame = False,
      vp8_stashedFrames = []\<rparr>"

text \<open>
  The loops of \<^verbatim>\<open>getReferences\<close> over the temporal layers: the first entry that is
  set, looking at the indices \<open>ts\<close> in the given order, gives the one reference.
\<close>

fun scanLayers :: "int list \<Rightarrow> nat list \<Rightarrow> int list" where
  "scanLayers info [] = []"
| "scanLayers info (t # ts) = (if info ! t \<noteq> 0 then [info ! t - 1] else scanLayers info ts)"

fun anyBaseLayer :: "(int \<times> int list) list \<Rightarrow> int list" where
  "anyBaseLayer [] = []"
| "anyBaseLayer ((k, info) # rest) = (if info ! 0 \<noteq> 0 then [info ! 0 - 1] else anyBaseLayer rest)"

definition getReferences :: "VP8RefFinder \<Rightarrow> int \<Rightarrow> int \<Rightarrow> int \<Rightarrow> int \<Rightarrow> int list option" where
  "getReferences f pid tl0 prevTL0 tid =
     (if tid = 0 then
        (case map_of (layerInfo f) prevTL0 of
           None \<Rightarrow> None
         | Some info \<Rightarrow> if info ! 0 = 0 then None else Some [info ! 0 - 1])
      else
        let refs = (case map_of (layerInfo f) tl0 of
                      None \<Rightarrow> []
                    | Some info \<Rightarrow> scanLayers info (rev [0..<nat tid]));
            refs = (if length refs = 0 then
                      (case map_of (layerInfo f) prevTL0 of
                         None \<Rightarrow> refs
                       | Some prevInfo \<Rightarrow> scanLayers prevInfo (rev [0..<nat (tid + 1)]))
                    else refs);
            refs = (if length refs = 0 then anyBaseLayer (layerInfo f) else refs)
        in if length refs = 0 then None else Some refs)"

definition initLayerInfo :: "VP8RefFinder \<Rightarrow> int \<Rightarrow> int \<Rightarrow> VP8RefFinder" where
  "initLayerInfo f tl0 pid =
     f\<lparr>layerInfo := AList.update tl0 ((replicate 4 0)[0 := pid + 1]) (layerInfo f)\<rparr>"

definition updateLayerInfo :: "VP8RefFinder \<Rightarrow> int \<Rightarrow> int \<Rightarrow> int \<Rightarrow> VP8RefFinder option" where
  "updateLayerInfo f tl0 tid pid =
     (let info = (case map_of (layerInfo f) tl0 of None \<Rightarrow> replicate 4 0 | Some info \<Rightarrow> info)
      in if tid < 0 \<or> tid \<ge> maxTemporalLayers then None
         else Some (f\<lparr>layerInfo := AList.update tl0 (info[nat tid := pid + 1]) (layerInfo f)\<rparr>))"

definition clearOldState :: "VP8RefFinder \<Rightarrow> int \<Rightarrow> VP8RefFinder" where
  "clearOldState f currentTL0 =
     f\<lparr>layerInfo := filter (\<lambda>(tl0, info). \<not> currentTL0 - tl0 > 10) (layerInfo f),
       vp8_stashedFrames :=
         filter (\<lambda>s. lastPictureID f - unwrappedPID s < 100) (vp8_stashedFrames f)\<rparr>"

definition VP8_stashFrame ::
  "VP8RefFinder \<Rightarrow> EncodedFrame \<Rightarrow> RTPVideoHeader \<Rightarrow> int \<Rightarrow> int \<Rightarrow> VP8RefFinder" where
  "VP8_stashFrame f frame header uPID uTL0 =
     (let st = (if length (vp8_stashedFrames f) \<ge> maxStashedFrames
                then drop 1 (vp8_stashedFrames f) else vp8_stashedFrames f);
          st = st @ [\<lparr>vFrame = frame, vHeader = header, unwrappedPID = uPID, unwrappedTL0 = uTL0\<rparr>]
      in f\<lparr>vp8_stashedFrames := sort_key unwrappedPID st\<rparr>)"

text \<open>\<^verbatim>\<open>for i, ref := range refs { if i < 5 { frame.References[i] = ref } }\<close>\<close>

definition writeReferences :: "int list \<Rightarrow> int list \<Rightarrow> int list" where
  "writeReferences references refs =
     foldl (\<lambda>rs (i, ref). if i < 5 then rs[i := ref] else rs) references (enumerate 0 refs)"

definition clampTid :: "int \<Rightarrow> int" where
  "clampTid t = (if t \<ge> maxTemporalLayers then maxTemporalLayers - 1 else t)"

definition tryProcessStashedFrame ::
  "VP8RefFinder \<Rightarrow> stashedVP8Frame \<Rightarrow> (VP8RefFinder \<times> EncodedFrame list) option" where
  "tryProcessStashedFrame f stashed =
     (let header = vHeader stashed; frame = vFrame stashed in
      if TemporalIdx header = NoTemporalIdx \<or> TL0PicIdx header = NoTL0PicIdx
         \<or> PictureID header = NoPictureID
      then Some (f, [])
      else
        let uPID = unwrappedPID stashed;
            uTL0 = unwrappedTL0 stashed;
            tid = clampTid (TemporalIdx header);
            prevTL0 = (if tid = 0 then uTL0 - 1 else uTL0)
        in (case getReferences f uPID uTL0 prevTL0 tid of
              None \<Rightarrow> Some (f, [])
            | Some refs \<Rightarrow>
                let frame = frame\<lparr>ID := uPID, NumReferences := int (length refs),
                                  References := writeReferences (References frame) refs\<rparr>
                in (case updateLayerInfo f uTL0 tid uPID of
                      None \<Rightarrow> None
                    | Some f' \<Rightarrow> Some (f'\<lparr>lastPictureID := uPID\<rparr>, [frame]))))"

text \<open>
  The inner loop of \<^verbatim>\<open>tryResolveStashedFrames\<close>: the first stashed frame that can be
  processed, with its index, the state after processing it and the frames it gives.
  The outer \<open>None\<close> is the panic.
\<close>

fun firstProcessable ::
  "VP8RefFinder \<Rightarrow> stashedVP8Frame list
     \<Rightarrow> (nat \<times> VP8RefFinder \<times> EncodedFrame list) option option" where
  "firstProcessable f [] = Some None"
| "firstProcessable f (s # ss) =
     (case tryProcessStashedFrame f s of
        None \<Rightarrow> None
      | Some (f', frames) \<Rightarrow>
          if length frames > 0 then Some (Some (0, f', frames))
          else map_option (map_option (\<lambda>(i, g, fs). (Suc i, g, fs))) (firstProcessable f' ss))"

lemma tryProcessStashedFrame_stash:
  "tryProcessStashedFrame f s = Some (f', frames) \<Longrightarrow>
     vp8_stashedFrames f' = vp8_stashedFrames f \<and> (frames = [] \<longrightarrow> f' = f)"
  by (auto simp: tryProcessStashedFrame_def updateLayerInfo_def Let_def
           split: if_splits option.splits)

lemma firstProcessable_Some:
  "firstProcessable f ss = Some (Some (i, f', frames)) \<Longrightarrow>
     i < length ss \<and> vp8_stashedFrames f' = vp8_stashedFrames f"
proof (induction ss arbitrary: f i)
  case Nil
  then show ?case by simp
next
  case (Cons s ss)
  from Cons.prems obtain g fs where p: "tryProcessStashedFrame f s = Some (g, fs)"
    by (auto split: option.splits)
  note st = tryProcessStashedFrame_stash [OF p]
  show ?case
  proof (cases "fs = []")
    case False
    then show ?thesis using Cons.prems p st by simp
  next
    case True
    with Cons.prems p obtain j where
      "firstProcessable g ss = Some (Some (j, f', frames))" "i = Suc j"
      by (auto simp: map_option_case split: option.splits)
    with Cons.IH [of g j] st show ?thesis by simp
  qed
qed

function VP8_tryResolveStashedFrames ::
  "VP8RefFinder \<Rightarrow> (VP8RefFinder \<times> EncodedFrame list) option" where
  "VP8_tryResolveStashedFrames f =
     (case firstProcessable f (vp8_stashedFrames f) of
        None \<Rightarrow> None
      | Some None \<Rightarrow> Some (f, [])
      | Some (Some (i, f', frames)) \<Rightarrow>
          (case VP8_tryResolveStashedFrames
                  (f'\<lparr>vp8_stashedFrames :=
                        take i (vp8_stashedFrames f') @ drop (i + 1) (vp8_stashedFrames f')\<rparr>) of
             None \<Rightarrow> None
           | Some (f'', result) \<Rightarrow> Some (f'', frames @ result)))"
  by pat_completeness auto
termination
  by (relation "measure (\<lambda>f. length (vp8_stashedFrames f))")
     (auto dest!: firstProcessable_Some)

definition VP8_handleKeyframe ::
  "VP8RefFinder \<Rightarrow> EncodedFrame \<Rightarrow> RTPVideoHeader \<Rightarrow> int \<Rightarrow> int \<Rightarrow> int
     \<Rightarrow> (VP8RefFinder \<times> EncodedFrame list) option" where
  "VP8_handleKeyframe f frame header pid tl0 tid =
     (let frame = frame\<lparr>NumReferences := 0\<rparr>;
          f = initLayerInfo f tl0 pid;
          f = f\<lparr>lastPictureID := pid, vp8_gotInitialFrame := True\<rparr>;
          f = clearOldState f tl0
      in (case VP8_tryResolveStashedFrames f of
            None \<Rightarrow> None
          | Some (f', resolved) \<Rightarrow> Some (f', [frame] @ resolved)))"

definition VP8_handleDeltaFrame ::
  "VP8RefFinder \<Rightarrow> EncodedFrame \<Rightarrow> RTPVideoHeader \<Rightarrow> int \<Rightarrow> int \<Rightarrow> int
     \<Rightarrow> (VP8RefFinder \<times> EncodedFrame list) option" where
  "VP8_handleDeltaFrame f frame header pid tl0 tid =
     (if \<not> vp8_gotInitialFrame f then Some (VP8_stashFrame f frame header pid tl0, [])
      else
        let prevTL0 = (if tid = 0 then tl0 - 1 else tl0) in
        (case getReferences f pid tl0 prevTL0 tid of
           None \<Rightarrow> Some (VP8_stashFrame f frame header pid tl0, [])
         | Some refs \<Rightarrow>
             let frame = frame\<lparr>NumReferences := int (length refs),
                               References := writeReferences (References frame) refs\<rparr>
             in (case updateLayerInfo f tl0 tid pid of
                   None \<Rightarrow> None
                 | Some f \<Rightarrow>
                     (case VP8_tryResolveStashedFrames (f\<lparr>lastPictureID := pid\<rparr>) of
                        None \<Rightarrow> None
                      | Some (f', resolved) \<Rightarrow> Some (f', [frame] @ resolved)))))"

definition fallbackManageFrame ::
  "VP8RefFinder \<Rightarrow> EncodedFrame \<Rightarrow> RTPVideoHeader \<Rightarrow> VP8RefFinder \<times> EncodedFrame list" where
  "fallbackManageFrame f frame header =
     (if PictureID header \<noteq> NoPictureID then
        (case pictureID_Unwrap (pictureIDUnwrapper f) (PictureID header) of
           (u, uPID) \<Rightarrow>
             let frame = frame\<lparr>ID := uPID\<rparr>;
                 frame = (if frame_FrameType frame = FrameTypeKey
                          then frame\<lparr>NumReferences := 0\<rparr>
                          else frame\<lparr>NumReferences := 1,
                                     References := (References frame)[0 := ID frame - 1]\<rparr>)
             in (f\<lparr>pictureIDUnwrapper := u\<rparr>, [frame]))
      else
        let frame = (if frame_FrameType frame = FrameTypeKey
                     then frame\<lparr>NumReferences := 0\<rparr>
                     else frame\<lparr>NumReferences := 1,
                                References := (References frame)[0 := ID frame - 1]\<rparr>)
        in (f, [frame]))"

definition VP8_ManageFrame ::
  "VP8RefFinder \<Rightarrow> EncodedFrame option \<Rightarrow> RTPVideoHeader option
     \<Rightarrow> (VP8RefFinder \<times> EncodedFrame list) option" where
  "VP8_ManageFrame f frame header =
     (case (frame, header) of
        (Some frame, Some header) \<Rightarrow>
          if TemporalIdx header = NoTemporalIdx \<or> TL0PicIdx header = NoTL0PicIdx
             \<or> PictureID header = NoPictureID
          then Some (fallbackManageFrame f frame header)
          else
            (case pictureID_Unwrap (pictureIDUnwrapper f) (PictureID header) of
               (pu, uPID) \<Rightarrow>
                 (case tl0PicIdx_Unwrap (tl0Unwrapper f) (TL0PicIdx header) of
                    (tu, uTL0) \<Rightarrow>
                      let f = f\<lparr>pictureIDUnwrapper := pu, tl0Unwrapper := tu\<rparr> in
                      if uPID < 0 \<or> uTL0 < 0 then Some (f, [])
                      else
                        let frame = frame\<lparr>ID := uPID\<rparr>;
                            tid = clampTid (TemporalIdx header)
                        in if frame_FrameType frame = FrameTypeKey \<and> tid = 0
                           then VP8_handleKeyframe f frame header uPID uTL0 tid
                           else VP8_handleDeltaFrame f frame header uPID uTL0 tid))
      | _ \<Rightarrow> Some (f, []))"

subsection \<open>Frames and headers used in the examples\<close>

text \<open>
  A frame as the tests of the finders build it (sequence numbers and frame type, all
  else zero), a header with picture identifier, temporal index and TL0PICIDX, and the
  state of a new VP8 finder after the key frame with picture identifier 0, temporal
  index 0 and TL0PICIDX 0.
\<close>

definition test_frame :: "int \<Rightarrow> int \<Rightarrow> FrameType \<Rightarrow> EncodedFrame" where
  "test_frame s1 s2 t =
     \<lparr>ID = 0, FirstSeqNum = word_of_int s1, LastSeqNum = word_of_int s2,
      FirstSeqNumUnwrapped = s1, LastSeqNumUnwrapped = s2,
      frame_Timestamp = 0, frame_FrameType = t, Data = [], Width = 0, Height = 0,
      NumReferences = 0, References = replicate 5 0\<rparr>"

definition test_header :: "int \<Rightarrow> int \<Rightarrow> int \<Rightarrow> RTPVideoHeader" where
  "test_header pid tid tl0 =
     \<lparr>FrameType = FrameTypeKey, IsFirstPacketInFrame = False, IsLastPacketInFrame = False,
      PictureID = pid, TemporalIdx = tid, TL0PicIdx = tl0\<rparr>"

definition vp8_after_key :: VP8RefFinder where
  "vp8_after_key =
     \<lparr>pictureIDUnwrapper = \<lparr>pid_lastUnwrapped = 0, pid_initialized = True\<rparr>,
      tl0Unwrapper = \<lparr>tl0_lastUnwrapped = 0, tl0_initialized = True\<rparr>,
      layerInfo = [(0, [1, 0, 0, 0])], lastPictureID = 0, vp8_gotInitialFrame = True,
      vp8_stashedFrames = []\<rparr>"

section \<open>The unwrapper: proofs\<close>

lemma and_FFFF: "(x::int) AND 0xFFFF = x mod 65536"
proof -
  have "take_bit 16 x = x AND mask 16" by (rule take_bit_eq_mask)
  then show ?thesis by (simp add: take_bit_eq_mod mask_eq_exp_minus_1)
qed

lemma uint_wire: "uint (wire r) = r mod 65536"
  by (simp add: wire_def uint_word_of_int)

lemma unwrap_first:
  "\<not> started u \<Longrightarrow> unwrap u s = (u\<lparr>lastSeq := uint s, started := True\<rparr>, uint s)"
  by (simp add: unwrap_def)

lemma norm_diff:
  fixes r rp :: int
  assumes "\<bar>r - rp\<bar> < 32768"
  defines "d0 \<equiv> r mod 65536 - rp mod 65536"
  shows "(if d0 > 32768 then d0 - 65536 else if d0 < - 32768 then d0 + 65536 else d0) = r - rp"
proof -
  define qa qb a b where "qa = r div 65536" and "qb = rp div 65536"
    and "a = r mod 65536" and "b = rp mod 65536"
  have bnd: "0 \<le> a" "a < 65536" "0 \<le> b" "b < 65536"
    unfolding a_def b_def by simp_all
  have er: "r = 65536 * qa + a" unfolding qa_def a_def by simp
  have erp: "rp = 65536 * qb + b" unfolding qb_def b_def by simp
  have d0: "d0 = a - b" unfolding d0_def a_def b_def by simp
  define k where "k = qa - qb"
  have eq: "r - rp = 65536 * k + d0"
    unfolding k_def d0 by (subst er, subst erp) (simp add: algebra_simps)
  have "- 2 < k" "k < 2"
    using eq bnd assms(1) unfolding d0 by linarith+
  then consider "k = -1" | "k = 0" | "k = 1" by linarith
  then show ?thesis
  proof cases
    case 1 then show ?thesis using eq bnd assms(1) unfolding d0 by auto
  next
    case 2 then show ?thesis using eq bnd assms(1) unfolding d0 by auto
  next
    case 3 then show ?thesis using eq bnd assms(1) unfolding d0 by auto
  qed
qed

lemma mod_shift:
  fixes l r rp :: int
  assumes "l mod 65536 = rp mod 65536"
  shows "(l + (r - rp)) mod 65536 = r mod 65536"
proof -
  have "(l + (r - rp)) mod 65536 = (l mod 65536 + (r - rp)) mod 65536"
    by (simp add: mod_add_left_eq)
  also have "\<dots> = (rp mod 65536 + (r - rp)) mod 65536" by (simp add: assms)
  also have "\<dots> = (rp + (r - rp)) mod 65536" by (simp add: mod_add_left_eq)
  finally show ?thesis by simp
qed

lemma unwrap_step:
  assumes "started u" and "\<bar>r - rp\<bar> < 32768" and "lastSeq u mod 65536 = rp mod 65536"
  shows "unwrap u (wire r) = (u\<lparr>lastSeq := lastSeq u + (r - rp)\<rparr>, lastSeq u + (r - rp))"
  using assms(1) norm_diff [OF assms(2)]
  by (simp add: unwrap_def and_FFFF uint_wire assms(3) Let_def)

lemma unwrap_all_started:
  assumes "started u" and "small_steps (rp # rs)" and "lastSeq u mod 65536 = rp mod 65536"
  shows "unwrap_all u (map wire rs) = map (\<lambda>r. r + (lastSeq u - rp)) rs"
  using assms
proof (induction rs arbitrary: u rp)
  case Nil
  then show ?case by simp
next
  case (Cons r rs)
  define u' where "u' = u\<lparr>lastSeq := lastSeq u + (r - rp)\<rparr>"
  have step: "unwrap u (wire r) = (u', lastSeq u + (r - rp))"
    unfolding u'_def using Cons.prems by (intro unwrap_step) simp_all
  have st: "started u'" using Cons.prems(1) by (simp add: u'_def)
  have l: "lastSeq u' = lastSeq u + (r - rp)" by (simp add: u'_def)
  have m: "lastSeq u' mod 65536 = r mod 65536"
    unfolding l by (rule mod_shift [OF Cons.prems(3)])
  have ss: "small_steps (r # rs)" using Cons.prems(2) by simp
  have "unwrap_all u' (map wire rs) = map (\<lambda>x. x + (lastSeq u' - r)) rs"
    by (rule Cons.IH [OF st ss m])
  then show ?case by (simp add: step l)
qed

lemma unwrap_all_fresh:
  assumes "small_steps (r0 # rs)"
  shows "unwrap_all new_sequenceUnwrapper (map wire (r0 # rs))
           = map (\<lambda>r. r + (r0 mod 65536 - r0)) (r0 # rs)"
proof -
  define u where "u = new_sequenceUnwrapper\<lparr>lastSeq := uint (wire r0), started := True\<rparr>"
  have first: "unwrap new_sequenceUnwrapper (wire r0) = (u, uint (wire r0))"
    unfolding u_def by (rule unwrap_first) (simp add: new_sequenceUnwrapper_def)
  have st: "started u" by (simp add: u_def)
  have l: "lastSeq u = r0 mod 65536" by (simp add: u_def uint_wire)
  have m: "lastSeq u mod 65536 = r0 mod 65536" by (simp add: l)
  have "unwrap_all u (map wire rs) = map (\<lambda>r. r + (lastSeq u - r0)) rs"
    by (rule unwrap_all_started [OF st assms m])
  then show ?thesis by (simp add: first l uint_wire)
qed

lemma wire_ascends_iff:
  fixes a b :: int
  assumes "\<bar>b - a\<bar> < 32768"
  shows "wire_ascends (wire a) (wire b) = (a < b)"
proof -
  have w: "wire b - wire a = wire (b - a)" by (simp add: wire_def)
  have u: "uint (wire b - wire a) = (b - a) mod 65536"
    unfolding w by (rule uint_wire)
  consider "0 < b - a" | "b - a = 0" | "b - a < 0" by linarith
  then show ?thesis
  proof cases
    case 1
    then have "(b - a) mod 65536 = b - a" using assms by simp
    then show ?thesis using 1 assms by (simp add: wire_ascends_def u)
  next
    case 2
    then show ?thesis by (simp add: wire_ascends_def u)
  next
    case 3
    have "(b - a + 65536) mod 65536 = b - a + 65536"
      using 3 assms by (intro mod_pos_pos_trivial) linarith+
    then have "(b - a) mod 65536 = b - a + 65536" by simp
    then show ?thesis using 3 assms by (simp add: wire_ascends_def u)
  qed
qed

lemma small_steps_nth:
  "small_steps rs \<Longrightarrow> Suc i < length rs \<Longrightarrow> \<bar>rs ! Suc i - rs ! i\<bar> < 32768"
proof (induction rs arbitrary: i rule: small_steps.induct)
  case (1 a b rs)
  then show ?case by (cases i) simp_all
qed simp_all

lemma norm_range:
  fixes a m :: int
  assumes "0 \<le> a" "a < 65536" "0 \<le> m" "m < 65536"
  shows "\<bar>(if a - m > 32768 then a - m - 65536
           else if a - m < - 32768 then a - m + 65536 else a - m)\<bar> \<le> 32768"
  using assms by auto

lemma unwrap_range:
  assumes "started u"
  shows "\<bar>snd (unwrap u s) - lastSeq u\<bar> \<le> 32768"
proof -
  define a m where "a = uint s" and "m = lastSeq u mod 65536"
  have "0 \<le> a" "a < 65536" using uint_lt2p [of s] by (simp_all add: a_def)
  moreover have "0 \<le> m" "m < 65536" by (simp_all add: m_def)
  ultimately have "\<bar>(if a - m > 32768 then a - m - 65536
           else if a - m < - 32768 then a - m + 65536 else a - m)\<bar> \<le> 32768"
    by (rule norm_range)
  then show ?thesis
    using assms unfolding a_def m_def by (simp add: unwrap_def and_FFFF Let_def)
qed

lemma unwrap_cong:
  "snd (unwrap u s) mod 65536 = uint s"
proof (cases "started u")
  case False
  have "uint s mod 65536 = uint s" using uint_lt2p [of s] by simp
  then show ?thesis using False by (simp add: unwrap_def)
next
  case True
  define x where "x = lastSeq u + (uint s - lastSeq u mod 65536)"
  have us: "uint s mod 65536 = uint s" using uint_lt2p [of s] by simp
  have "lastSeq u mod 65536 = (lastSeq u mod 65536) mod 65536" by simp
  then have "x mod 65536 = uint s mod 65536"
    unfolding x_def by (rule mod_shift)
  then have x: "x mod 65536 = uint s" using us by simp
  have xm: "(x - 65536) mod 65536 = uint s" using x by simp
  have xp: "(x + 65536) mod 65536 = uint s" using x by simp
  have e1: "lastSeq u + (uint s - lastSeq u mod 65536 - 65536) = x - 65536"
    by (simp add: x_def)
  have e2: "lastSeq u + (uint s - lastSeq u mod 65536 + 65536) = x + 65536"
    by (simp add: x_def)
  show ?thesis
    using True x xm xp unfolding x_def [symmetric]
    by (simp add: unwrap_def and_FFFF Let_def e1 e2 x_def [symmetric])
qed

subsection \<open>Claims on the unwrapper\<close>

text \<open>
  Claim C6, as the code has it.  On the first input the unwrapper stores and returns the
  input.  On every later input it takes the difference between the input and
  \<open>last mod 2^16\<close>, subtracts \<open>2^16\<close> when the difference exceeds \<open>2^15\<close> and adds
  \<open>2^16\<close> when it is below \<open>-2^15\<close>, adds the result to \<open>last\<close> and returns the new
  \<open>last\<close>.  The normalised difference lies in the closed interval \<open>[-2^15, 2^15]\<close>
  (a difference of exactly \<open>-2^15\<close> is kept as it is), and the output is congruent to
  the input modulo \<open>2^16\<close>.
\<close>

theorem unwrap_closed_interval:
  "unwrap u s = unwrap_closed u s
   \<and> started (fst (unwrap u s))
   \<and> lastSeq (fst (unwrap u s)) = snd (unwrap u s)
   \<and> \<bar>snd (unwrap u s) - (if started u then lastSeq u else uint s)\<bar> \<le> 2 ^ 15
   \<and> snd (unwrap u s) mod 2 ^ 16 = uint s"
proof -
  have eq: "unwrap u s = unwrap_closed u s"
    by (simp add: unwrap_def unwrap_closed_def and_FFFF Let_def)
  have st: "started (fst (unwrap u s))"
    by (simp add: unwrap_def Let_def)
  have ls: "lastSeq (fst (unwrap u s)) = snd (unwrap u s)"
    by (simp add: unwrap_def Let_def)
  have rng: "\<bar>snd (unwrap u s) - (if started u then lastSeq u else uint s)\<bar> \<le> 2 ^ 15"
  proof (cases "started u")
    case True
    then show ?thesis using unwrap_range [OF True, of s] by simp
  next
    case False
    then show ?thesis by (simp add: unwrap_first)
  qed
  have cg: "snd (unwrap u s) mod 2 ^ 16 = uint s"
    using unwrap_cong [of u s] by simp
  show ?thesis using eq st ls rng cg by blast
qed

text \<open>
  Claim C6 as the specification words it fails: after the input \<open>32768\<close> the input
  \<open>0\<close> gives the difference \<open>-2^15\<close>, which the code leaves unchanged and returns
  \<open>0\<close>, whereas normalising into \<open>(-2^15, 2^15]\<close> would return \<open>65536\<close>.
\<close>

theorem unwrap_half_open_counterexample:
  "fst (unwrap new_sequenceUnwrapper 32768) = \<lparr>lastSeq = 32768, started = True\<rparr>
   \<and> snd (unwrap \<lparr>lastSeq = 32768, started = True\<rparr> 0) = 0
   \<and> snd (unwrap_spec \<lparr>lastSeq = 32768, started = True\<rparr> 0) = 65536
   \<and> unwrap \<lparr>lastSeq = 32768, started = True\<rparr> 0
       \<noteq> unwrap_spec \<lparr>lastSeq = 32768, started = True\<rparr> 0"
  by (simp add: unwrap_def unwrap_spec_def new_sequenceUnwrapper_def and_FFFF)

text \<open>
  Claim C7.  Let \<open>r0, r1, \<dots>\<close> be the real (unwrapped) sequence numbers of a stream
  whose consecutive values differ by less than \<open>2^15\<close> in magnitude, and feed their
  16-bit wire values to a fresh unwrapper.  Then every output differs from the real
  value by one constant, \<open>r0 mod 2^16 - r0\<close> (zero when the stream starts inside
  \<open>[0, 2^16)\<close>), and wherever a wire value follows its predecessor in increasing
  direction modulo \<open>2^16\<close> the output strictly increases.
\<close>

theorem unwrap_constant_offset_monotone:
  assumes "small_steps (r0 # rs)"
  shows "unwrap_all new_sequenceUnwrapper (map wire (r0 # rs))
           = map (\<lambda>r. r + (r0 mod 2 ^ 16 - r0)) (r0 # rs)
         \<and> (\<forall>i. Suc i < length (r0 # rs) \<longrightarrow>
               wire_ascends (wire ((r0 # rs) ! i)) (wire ((r0 # rs) ! Suc i)) \<longrightarrow>
               unwrap_all new_sequenceUnwrapper (map wire (r0 # rs)) ! i
                 < unwrap_all new_sequenceUnwrapper (map wire (r0 # rs)) ! Suc i)"
proof -
  let ?rs = "r0 # rs"
  let ?out = "unwrap_all new_sequenceUnwrapper (map wire ?rs)"
  have out: "?out = map (\<lambda>r. r + (r0 mod 2 ^ 16 - r0)) ?rs"
    using unwrap_all_fresh [OF assms] by simp
  have mono: "?out ! i < ?out ! Suc i"
    if i: "Suc i < length ?rs" and asc: "wire_ascends (wire (?rs ! i)) (wire (?rs ! Suc i))" for i
  proof -
    have "\<bar>?rs ! Suc i - ?rs ! i\<bar> < 32768"
      by (rule small_steps_nth [OF assms i])
    then have lt: "?rs ! i < ?rs ! Suc i"
      using asc wire_ascends_iff by blast
    have a: "?out ! i = ?rs ! i + (r0 mod 2 ^ 16 - r0)"
      unfolding out using i by (subst nth_map) simp_all
    have b: "?out ! Suc i = ?rs ! Suc i + (r0 mod 2 ^ 16 - r0)"
      unfolding out using i by (subst nth_map) simp_all
    show ?thesis unfolding a b using lt by simp
  qed
  show ?thesis using out mono by blast
qed

theorem unwrap_constant_offset_monotone_witness:
  "small_steps [65534, 65535, 65536, 65537]
   \<and> unwrap_all new_sequenceUnwrapper [65534, 65535, 0, 1] = [65534, 65535, 65536, 65537]
   \<and> wire_ascends 65535 0"
proof -
  have ss: "small_steps (65534 # [65535, 65536, 65537])" by simp
  have w: "map wire [65534, 65535, 65536, 65537] = [65534, 65535, 0, 1]"
    by (simp add: wire_def)
  have "unwrap_all new_sequenceUnwrapper (map wire (65534 # [65535, 65536, 65537]))
           = map (\<lambda>r. r + (65534 mod 2 ^ 16 - 65534)) (65534 # [65535, 65536, 65537])"
    using unwrap_constant_offset_monotone [OF ss] by blast
  then have "unwrap_all new_sequenceUnwrapper [65534, 65535, 0, 1] = [65534, 65535, 65536, 65537]"
    unfolding w by simp
  moreover have "wire_ascends 65535 0" by (simp add: wire_ascends_def)
  ultimately show ?thesis using ss by simp
qed

section \<open>The packet buffer: proofs\<close>



lemma seqNumToIndex_eq:
  assumes "0 < bsize b"
  shows "seqNumToIndex b s = nat (s mod int (bsize b))"
proof -
  define n where "n = int (bsize b)"
  have n: "0 < n" using assms by (simp add: n_def)
  have m: "0 \<le> s mod n" "s mod n < n" using n by simp_all
  have "(let idx = s smod n; idx = (if idx < 0 then idx + n else idx) in idx) = s mod n"
  proof (cases "sgn s \<noteq> sgn n \<and> \<not> n dvd s")
    case True
    then have "s smod n = s mod n - n"
      by (simp add: signed_modulo_int_eq_modulo_int)
    then show ?thesis using m by (simp add: Let_def)
  next
    case False
    then have "s smod n = s mod n"
      by (simp add: signed_modulo_int_eq_modulo_int)
    then show ?thesis using m by (simp add: Let_def)
  qed
  then show ?thesis unfolding seqNumToIndex_def n_def [symmetric] by (simp add: Let_def)
qed

lemma seqNumToIndex_lt: "wf_buffer b \<Longrightarrow> seqNumToIndex b s < length (buffer b)"
  by (simp add: seqNumToIndex_eq wf_buffer_def nat_less_iff)

lemma seqNumToIndex_cong: "bsize b' = bsize b \<Longrightarrow> seqNumToIndex b' s = seqNumToIndex b s"
  by (simp add: seqNumToIndex_def Let_def)

lemma clearSlot_simps:
  "bsize (clearSlot b p) = bsize b"
  "length (buffer (clearSlot b p)) = length (buffer b)"
  by (simp_all add: clearSlot_def)

lemma foldl_clearSlot_bsize: "bsize (foldl clearSlot b ps) = bsize b"
  by (induction ps arbitrary: b) (simp_all add: clearSlot_simps)

lemma foldl_clearSlot_length: "length (buffer (foldl clearSlot b ps)) = length (buffer b)"
  by (induction ps arbitrary: b) (simp_all add: clearSlot_simps)

lemma foldl_clearSlot_nth:
  "i < length (buffer b) \<Longrightarrow>
   buffer (foldl clearSlot b ps) ! i =
     (if i \<in> (\<lambda>p. seqNumToIndex b (SequenceNumber p)) ` set ps then None else buffer b ! i)"
proof (induction ps arbitrary: b)
  case Nil
  then show ?case by simp
next
  case (Cons p ps)
  have idx: "seqNumToIndex (clearSlot b p) = seqNumToIndex b"
    by (rule ext, rule seqNumToIndex_cong) (simp add: clearSlot_simps)
  have len: "i < length (buffer (clearSlot b p))"
    using Cons.prems by (simp add: clearSlot_simps)
  have one: "buffer (clearSlot b p) ! i =
      (if i = seqNumToIndex b (SequenceNumber p) then None else buffer b ! i)"
    using Cons.prems by (simp add: clearSlot_def nth_list_update)
  have "buffer (foldl clearSlot (clearSlot b p) ps) ! i =
      (if i \<in> (\<lambda>p. seqNumToIndex b (SequenceNumber p)) ` set ps then None
       else buffer (clearSlot b p) ! i)"
    using Cons.IH [OF len] by (simp add: idx)
  then show ?case unfolding one by auto
qed

declare findFrameStart.simps [simp del]

lemma findFrameStart_Some:
  "findFrameStart b e s = Some st \<Longrightarrow>
     st \<le> s \<and> (\<exists>p. slotAt b st = Some p \<and> SequenceNumber p = st \<and> isFirst p)"
proof (induction b e s rule: findFrameStart.induct)
  case (1 b e s)
  from "1.prems" obtain pkt where pkt: "buffer b ! seqNumToIndex b s = Some pkt"
    by (subst (asm) findFrameStart.simps) (auto split: option.splits)
  from "1.prems" pkt have sq: "SequenceNumber pkt = s"
    by (subst (asm) findFrameStart.simps) (auto split: if_splits)
  show ?case
  proof (cases "isFirst pkt")
    case True
    with "1.prems" pkt sq have "st = s"
      by (subst (asm) findFrameStart.simps) simp
    then show ?thesis using pkt sq True by (simp add: slotAt_def)
  next
    case False
    have unf: "findFrameStart b e s =
        (if e - (s - 1) > int (bsize b) then None else findFrameStart b e (s - 1))"
      by (subst findFrameStart.simps) (simp add: pkt sq False)
    have le: "\<not> e - (s - 1) > int (bsize b)"
      using "1.prems" unf by (simp split: if_splits)
    have rec: "findFrameStart b e (s - 1) = Some st"
      using "1.prems" unf le by simp
    have "st \<le> s - 1 \<and> (\<exists>p. slotAt b st = Some p \<and> SequenceNumber p = st \<and> isFirst p)"
      using "1.IH" [OF pkt _ False le rec] sq by simp
    then show ?thesis by auto
  qed
qed

lemma collectPackets_Some:
  "collectPackets b seqs = Some ps \<Longrightarrow>
     map SequenceNumber ps = seqs \<and>
     (\<forall>p\<in>set ps. slotAt b (SequenceNumber p) = Some p \<and> Continuous p)"
proof (induction seqs arbitrary: ps)
  case Nil
  then show ?case by simp
next
  case (Cons s seqs)
  from Cons.prems obtain pkt ps' where
    pkt: "buffer b ! seqNumToIndex b s = Some pkt" "SequenceNumber pkt = s" "Continuous pkt"
    and ps': "collectPackets b seqs = Some ps'" and ps: "ps = pkt # ps'"
    by (simp split: option.splits if_splits)
  from Cons.IH [OF ps'] pkt ps show ?case
    by (simp add: slotAt_def)
qed

lemma extractFrame_nonempty:
  assumes "extractFrame b e \<noteq> []"
  shows "\<exists>st. st \<le> e \<and> map SequenceNumber (extractFrame b e) = [st..e]
          \<and> (\<forall>p\<in>set (extractFrame b e). slotAt b (SequenceNumber p) = Some p \<and> Continuous p)
          \<and> isFirst (hd (extractFrame b e))"
proof -
  from assms obtain st where st: "findFrameStart b e e = Some st"
    by (auto simp: extractFrame_def split: option.splits)
  with assms obtain ps where ps: "collectPackets b [st..e] = Some ps"
    by (auto simp: extractFrame_def split: option.splits)
  have ex: "extractFrame b e = ps" by (simp add: extractFrame_def st ps)
  from findFrameStart_Some [OF st] obtain p0 where
    le: "st \<le> e" and p0: "slotAt b st = Some p0" "isFirst p0" by auto
  from collectPackets_Some [OF ps] have
    m: "map SequenceNumber ps = [st..e]" and
    a: "\<forall>p\<in>set ps. slotAt b (SequenceNumber p) = Some p \<and> Continuous p" by auto
  have ne: "ps \<noteq> []" using assms ex by simp
  have "SequenceNumber (hd ps) = st"
  proof -
    have "[st..e] = st # [st + 1..e]" using le by (rule upto_rec1)
    then show ?thesis using m ne by (cases ps) simp_all
  qed
  moreover have "hd ps \<in> set ps" using ne by simp
  ultimately have "slotAt b st = Some (hd ps)" using a by metis
  then have "isFirst (hd ps)" using p0 by simp
  then show ?thesis using le m a ex by auto
qed

lemma potentialNewFrame_holds:
  "potentialNewFrame b s \<Longrightarrow> \<exists>pkt. slotAt b s = Some pkt \<and> SequenceNumber pkt = s"
  by (auto simp: potentialNewFrame_def slotAt_def split: option.splits if_splits)

lemma findFrames_step_cases:
  assumes "findFrames_step seqNum (b, result) i = st'"
    and "cur = seqNum - int (bsize b) div 2 + int i"
  obtains (skip) "st' = (b, result)"
  | (mark) pkt where "slotAt b cur = Some pkt" "SequenceNumber pkt = cur"
      "st' = (markContinuous b cur pkt, result)"
  | (emit) pkt where "slotAt b cur = Some pkt" "SequenceNumber pkt = cur" "isLast pkt"
      "extractFrame (markContinuous b cur pkt) cur \<noteq> []"
      "st' = (foldl clearSlot (markContinuous b cur pkt) (extractFrame (markContinuous b cur pkt) cur),
              result @ [extractFrame (markContinuous b cur pkt) cur])"
proof (cases "potentialNewFrame b cur")
  case False
  then have "st' = (b, result)"
    using assms by (simp add: findFrames_step_def Let_def)
  then show ?thesis by (rule skip)
next
  case True
  from potentialNewFrame_holds [OF True] obtain pkt where
    pkt: "slotAt b cur = Some pkt" "SequenceNumber pkt = cur" by auto
  have il: "isLast (pkt\<lparr>Continuous := True\<rparr>) = isLast pkt" by (simp add: isLast_def)
  have step: "st' =
     (if isLast pkt then
        (if length (extractFrame (markContinuous b cur pkt) cur) > 0
         then (foldl clearSlot (markContinuous b cur pkt) (extractFrame (markContinuous b cur pkt) cur),
               result @ [extractFrame (markContinuous b cur pkt) cur])
         else (markContinuous b cur pkt, result))
      else (markContinuous b cur pkt, result))"
  proof (cases "isLast pkt")
    case False
    then show ?thesis
      using assms True pkt(1) unfolding slotAt_def
      by (simp add: findFrames_step_def Let_def il markContinuous_def)
  next
    case l: True
    show ?thesis
    proof (cases "extractFrame (markContinuous b cur pkt) cur = []")
      case True
      then show ?thesis
        using assms \<open>potentialNewFrame b cur\<close> pkt(1) l unfolding slotAt_def
        by (simp add: findFrames_step_def Let_def il markContinuous_def)
    next
      case False
      then show ?thesis
        using assms \<open>potentialNewFrame b cur\<close> pkt(1) l unfolding slotAt_def
        by (simp add: findFrames_step_def Let_def il markContinuous_def)
    qed
  qed
  show ?thesis
  proof (cases "isLast pkt \<and> extractFrame (markContinuous b cur pkt) cur \<noteq> []")
    case True
    then show ?thesis using step pkt by (intro emit [of pkt]) simp_all
  next
    case False
    then have "st' = (markContinuous b cur pkt, result)" using step by auto
    then show ?thesis using pkt by (intro mark [of pkt]) simp_all
  qed
qed

lemma markContinuous_simps:
  "bsize (markContinuous b cur pkt) = bsize b"
  "length (buffer (markContinuous b cur pkt)) = length (buffer b)"
  "seqNumToIndex (markContinuous b cur pkt) s = seqNumToIndex b s"
  by (simp_all add: markContinuous_def seqNumToIndex_def Let_def)

lemma markContinuous_slotAt:
  assumes "wf_buffer b"
  shows "slotAt (markContinuous b cur pkt) s =
     (if seqNumToIndex b s = seqNumToIndex b cur then Some (pkt\<lparr>Continuous := True\<rparr>)
      else slotAt b s)"
  using seqNumToIndex_lt [OF assms, of cur]
  by (simp add: slotAt_def markContinuous_simps) (simp add: markContinuous_def)

lemma markContinuous_holds:
  assumes "wf_buffer b" "slotAt b cur = Some pkt"
  shows "holds (markContinuous b cur pkt) s = holds b s"
proof (cases "seqNumToIndex b s = seqNumToIndex b cur")
  case True
  then have "slotAt b s = Some pkt" using assms(2) by (simp add: slotAt_def)
  then show ?thesis using True by (simp add: holds_def markContinuous_slotAt [OF assms(1)])
next
  case False
  then show ?thesis by (simp add: holds_def markContinuous_slotAt [OF assms(1)])
qed

lemma markContinuous_wf: "wf_buffer b \<Longrightarrow> wf_buffer (markContinuous b cur pkt)"
  by (simp add: wf_buffer_def markContinuous_simps)

lemma foldl_clearSlot_wf: "wf_buffer b \<Longrightarrow> wf_buffer (foldl clearSlot b ps)"
  by (simp add: wf_buffer_def foldl_clearSlot_bsize foldl_clearSlot_length)

lemma foldl_clearSlot_slotAt:
  assumes "wf_buffer b"
  shows "slotAt (foldl clearSlot b ps) s =
     (if seqNumToIndex b s \<in> (\<lambda>p. seqNumToIndex b (SequenceNumber p)) ` set ps then None
      else slotAt b s)"
proof -
  have "seqNumToIndex (foldl clearSlot b ps) s = seqNumToIndex b s"
    by (rule seqNumToIndex_cong) (rule foldl_clearSlot_bsize)
  then show ?thesis
    using foldl_clearSlot_nth [OF seqNumToIndex_lt [OF assms, of s], of ps]
    by (simp add: slotAt_def)
qed

lemma foldl_clearSlot_holds:
  assumes "wf_buffer b" "holds (foldl clearSlot b ps) s"
  shows "holds b s \<and> s \<notin> SequenceNumber ` set ps"
  using assms(2) unfolding holds_def foldl_clearSlot_slotAt [OF assms(1)]
  by (auto split: if_splits)

lemma Continuous_update_id: "Continuous p \<Longrightarrow> p\<lparr>Continuous := True\<rparr> = p"
  by simp

lemma emit_facts:
  assumes wf: "wf_buffer b" and pkt: "slotAt b cur = Some pkt" "isLast pkt"
    and ne: "extractFrame (markContinuous b cur pkt) cur \<noteq> []"
  defines "frame \<equiv> extractFrame (markContinuous b cur pkt) cur"
  shows "\<exists>st. st \<le> cur \<and> map SequenceNumber frame = [st..cur]"
    and "\<forall>p\<in>set frame. slotAt (markContinuous b cur pkt) (SequenceNumber p) = Some p \<and> Continuous p"
    and "good_frame frame"
proof -
  from extractFrame_nonempty [OF ne] obtain st where
    st: "st \<le> cur" and m: "map SequenceNumber frame = [st..cur]"
    and a: "\<forall>p\<in>set frame. slotAt (markContinuous b cur pkt) (SequenceNumber p) = Some p \<and> Continuous p"
    and f: "isFirst (hd frame)"
    unfolding frame_def by blast
  show "\<exists>st. st \<le> cur \<and> map SequenceNumber frame = [st..cur]" using st m by blast
  show "\<forall>p\<in>set frame. slotAt (markContinuous b cur pkt) (SequenceNumber p) = Some p \<and> Continuous p"
    by (rule a)
  have ne': "frame \<noteq> []" using ne by (simp add: frame_def)
  have "[st..cur] = st # [st + 1..cur]" using st by (rule upto_rec1)
  then have h: "SequenceNumber (hd frame) = st"
    using m ne' by (cases frame) simp_all
  have "[st..cur] = [st..cur - 1] @ [cur]" using st by (rule upto_rec2)
  then have "last (map SequenceNumber frame) = cur" using m by simp
  then have l: "SequenceNumber (last frame) = cur" using ne' by (simp add: last_map)
  have "last frame \<in> set frame" using ne' by simp
  then have "slotAt (markContinuous b cur pkt) cur = Some (last frame)" using a l by metis
  then have "last frame = pkt\<lparr>Continuous := True\<rparr>"
    by (simp add: markContinuous_slotAt [OF wf])
  then have il: "isLast (last frame)" using pkt(2) by (simp add: isLast_def)
  show "good_frame frame"
    unfolding good_frame_def using ne' m h l f il by simp
qed

lemma slot_rel_mono: "slot_rel fs r0 r \<Longrightarrow> slot_rel (fs @ gs) r0 r"
  by (auto simp: slot_rel_def split: option.splits)

lemma slot_rel_mark:
  assumes "slot_rel fs r0 (Some pkt)"
  shows "slot_rel fs r0 (Some (pkt\<lparr>Continuous := True\<rparr>))"
  using assms by (auto simp: slot_rel_def split: option.splits)

lemma slot_rel_clear:
  assumes "slot_rel fs r0 (Some p)" "Continuous p" "p \<in> set f"
  shows "slot_rel (fs @ [f]) r0 None"
proof -
  from assms(1) obtain p0 where p0: "r0 = Some p0" "p = p0 \<or> p = p0\<lparr>Continuous := True\<rparr>"
    by (auto simp: slot_rel_def split: option.splits)
  then have "p0\<lparr>Continuous := True\<rparr> = p" using assms(2) by auto
  then show ?thesis using assms(3) p0(1) by (auto simp: slot_rel_def list_ex_iff)
qed

lemma scan_step:
  assumes wf0: "wf_buffer b0"
    and inv: "scan_inv b0 cur (b, result)"
    and cur: "cur = seqNum - int (bsize b) div 2 + int i"
    and step: "findFrames_step seqNum (b, result) i = st'"
  shows "scan_inv b0 (cur + 1) st'"
proof -
  from inv have wf: "wf_buffer b" and bs: "bsize b = bsize b0"
    and below: "\<And>f p. f \<in> set result \<Longrightarrow> p \<in> set f \<Longrightarrow>
                  SequenceNumber p < cur \<and> \<not> holds b (SequenceNumber p)"
    and sorted: "sorted_wrt frame_before result"
    and gf: "list_all good_frame result"
    and sr: "\<And>j. j < length (buffer b0) \<Longrightarrow> slot_rel result (buffer b0 ! j) (buffer b ! j)"
    by (auto simp: scan_inv_def emitted_below_def)
  have len: "length (buffer b) = length (buffer b0)"
    using wf wf0 bs by (simp add: wf_buffer_def)
  from step cur show ?thesis
  proof (cases rule: findFrames_step_cases)
    case skip
    have "emitted_below (cur + 1) b result"
      unfolding emitted_below_def using below sorted by fastforce
    then show ?thesis
      using skip wf bs gf sr by (simp add: scan_inv_def)
  next
    case (mark pkt)
    let ?bm = "markContinuous b cur pkt"
    have h: "\<And>s. holds ?bm s = holds b s"
      by (rule markContinuous_holds [OF wf mark(1)])
    have eb: "emitted_below (cur + 1) ?bm result"
      unfolding emitted_below_def h using below sorted by fastforce
    have srm: "slot_rel result (buffer b0 ! j) (buffer ?bm ! j)" if j: "j < length (buffer b0)" for j
    proof (cases "j = seqNumToIndex b cur")
      case True
      have "buffer b ! j = Some pkt" using mark(1) True by (simp add: slotAt_def)
      then have "slot_rel result (buffer b0 ! j) (Some pkt)" using sr [OF j] by simp
      then have "slot_rel result (buffer b0 ! j) (Some (pkt\<lparr>Continuous := True\<rparr>))"
        by (rule slot_rel_mark)
      then show ?thesis using True j len by (simp add: markContinuous_def)
    next
      case False
      then show ?thesis using sr [OF j] by (simp add: markContinuous_def)
    qed
    show ?thesis
      using mark(3) markContinuous_wf [OF wf] bs gf eb srm
      by (simp add: scan_inv_def markContinuous_simps)
  next
    case (emit pkt)
    let ?bm = "markContinuous b cur pkt"
    let ?fr = "extractFrame ?bm cur"
    let ?bc = "foldl clearSlot ?bm ?fr"
    have wfm: "wf_buffer ?bm" by (rule markContinuous_wf [OF wf])
    have h: "\<And>s. holds ?bm s = holds b s"
      by (rule markContinuous_holds [OF wf emit(1)])
    from emit_facts [OF wf emit(1) emit(3) emit(4)] obtain st where
      st: "st \<le> cur" and m: "map SequenceNumber ?fr = [st..cur]"
      and a: "\<And>p. p \<in> set ?fr \<Longrightarrow> slotAt ?bm (SequenceNumber p) = Some p \<and> Continuous p"
      and good: "good_frame ?fr"
      by blast
    have seqs: "SequenceNumber ` set ?fr = {st..cur}"
      using m by (metis set_map set_upto)
    have held: "holds b (SequenceNumber p)" if "p \<in> set ?fr" for p
      using a [OF that] h [of "SequenceNumber p"] by (simp add: holds_def)
    have clr: "\<not> holds ?bc s" if "holds b s \<longrightarrow> s \<in> SequenceNumber ` set ?fr" for s
      using foldl_clearSlot_holds [OF wfm, of ?fr s] h [of s] that by blast
    have old_lt: "SequenceNumber p < st" if "f \<in> set result" "p \<in> set f" for f p
    proof (rule ccontr)
      assume "\<not> SequenceNumber p < st"
      then have "SequenceNumber p \<in> {st..cur}" using below [OF that] by simp
      then obtain q where "q \<in> set ?fr" "SequenceNumber q = SequenceNumber p"
        using seqs by (metis imageE)
      then have "holds b (SequenceNumber p)" using held by metis
      then show False using below [OF that] by simp
    qed
    have before: "frame_before f ?fr" if "f \<in> set result" for f
      unfolding frame_before_def list_all_iff
    proof (intro ballI)
      fix p q assume "p \<in> set f" "q \<in> set ?fr"
      then have "SequenceNumber p < st" "st \<le> SequenceNumber q"
        using old_lt [OF that] seqs by auto
      then show "SequenceNumber p < SequenceNumber q" by simp
    qed
    have sorted': "sorted_wrt frame_before (result @ [?fr])"
      using sorted before by (simp add: sorted_wrt_append)
    have below': "SequenceNumber p < cur + 1 \<and> \<not> holds ?bc (SequenceNumber p)"
      if "f \<in> set (result @ [?fr])" "p \<in> set f" for f p
    proof (cases "f \<in> set result")
      case True
      then show ?thesis using below [OF True that(2)] clr by auto
    next
      case False
      then have "p \<in> set ?fr" using that by simp
      then have "SequenceNumber p \<in> {st..cur}" using seqs by blast
      moreover have "\<not> holds ?bc (SequenceNumber p)"
        using \<open>p \<in> set ?fr\<close> by (intro clr) simp
      ultimately show ?thesis by simp
    qed
    have eb: "emitted_below (cur + 1) ?bc (result @ [?fr])"
      unfolding emitted_below_def using below' sorted' by blast
    have src: "slot_rel (result @ [?fr]) (buffer b0 ! j) (buffer ?bc ! j)"
      if j: "j < length (buffer b0)" for j
    proof -
      have srm: "slot_rel result (buffer b0 ! j) (buffer ?bm ! j)"
      proof (cases "j = seqNumToIndex b cur")
        case True
        have "buffer b ! j = Some pkt" using emit(1) True by (simp add: slotAt_def)
        then have "slot_rel result (buffer b0 ! j) (Some pkt)" using sr [OF j] by simp
        then have "slot_rel result (buffer b0 ! j) (Some (pkt\<lparr>Continuous := True\<rparr>))"
          by (rule slot_rel_mark)
        then show ?thesis using True j len by (simp add: markContinuous_def)
      next
        case False
        then show ?thesis using sr [OF j] by (simp add: markContinuous_def)
      qed
      have jm: "j < length (buffer ?bm)" using j len by (simp add: markContinuous_simps)
      show ?thesis
      proof (cases "j \<in> (\<lambda>p. seqNumToIndex ?bm (SequenceNumber p)) ` set ?fr")
        case True
        then obtain p where p: "p \<in> set ?fr" "j = seqNumToIndex ?bm (SequenceNumber p)" by blast
        then have "buffer ?bm ! j = Some p" "Continuous p" using a [OF p(1)] by (simp_all add: slotAt_def)
        then have "slot_rel (result @ [?fr]) (buffer b0 ! j) None"
          using srm p(1) by (intro slot_rel_clear [where p = p]) simp_all
        then show ?thesis using True foldl_clearSlot_nth [OF jm, of ?fr] by simp
      next
        case False
        then show ?thesis
          using foldl_clearSlot_nth [OF jm, of ?fr] slot_rel_mono [OF srm] by simp
      qed
    qed
    have gf': "list_all good_frame (result @ [?fr])" using gf good by simp
    show ?thesis
      using emit(5) foldl_clearSlot_wf [OF wfm] bs gf' eb src
      by (simp add: scan_inv_def markContinuous_simps foldl_clearSlot_bsize)
  qed
qed

lemma scan_loop:
  assumes wf0: "wf_buffer b0"
  shows "scan_inv b0 (seqNum - int (bsize b0) div 2 + int n)
           (foldl (findFrames_step seqNum) (b0, []) [0..<n])"
proof (induction n)
  case 0
  show ?case
    using wf0 by (simp add: scan_inv_def emitted_below_def slot_rel_def)
next
  case (Suc n)
  obtain b result where st: "foldl (findFrames_step seqNum) (b0, []) [0..<n] = (b, result)"
    by (cases "foldl (findFrames_step seqNum) (b0, []) [0..<n]")
  have inv: "scan_inv b0 (seqNum - int (bsize b0) div 2 + int n) (b, result)"
    using Suc.IH st by simp
  then have bs: "bsize b = bsize b0" by (simp add: scan_inv_def)
  have "scan_inv b0 (seqNum - int (bsize b0) div 2 + int n + 1)
          (findFrames_step seqNum (b, result) n)"
    by (rule scan_step [OF wf0 inv _ refl]) (simp add: bs)
  moreover have "seqNum - int (bsize b0) div 2 + int n + 1
      = seqNum - int (bsize b0) div 2 + int (Suc n)" by simp
  ultimately show ?case by (simp only: upt_Suc_append [OF le0] foldl_append foldl.simps st)
qed

lemma findFrames_inv:
  assumes "wf_buffer b0"
  shows "scan_inv b0 (seqNum - int (bsize b0) div 2 + int (bsize b0)) (findFrames b0 seqNum)"
  unfolding findFrames_def by (rule scan_loop [OF assms])

lemma InsertPacket_held:
  assumes "holds b (SequenceNumber pkt)"
  shows "InsertPacket b pkt = (b, \<lparr>Frames = []\<rparr>)"
  using assms
  by (simp add: InsertPacket_def holds_def slotAt_def Let_def split: option.splits)

lemma InsertPacket_not_held:
  assumes "\<not> holds b (SequenceNumber pkt)"
  shows "InsertPacket b pkt =
     (fst (findFrames (storePacket b pkt) (SequenceNumber pkt)),
      \<lparr>Frames = snd (findFrames (storePacket b pkt) (SequenceNumber pkt))\<rparr>)"
proof -
  have dup: "(case buffer b ! seqNumToIndex b (SequenceNumber pkt) of
                None \<Rightarrow> False | Some old \<Rightarrow> SequenceNumber old = SequenceNumber pkt) = False"
    using assms by (simp add: holds_def slotAt_def)
  have idx: "seqNumToIndex (b\<lparr>buffer := xs\<rparr>) s = seqNumToIndex b s" for xs s
    by (simp add: seqNumToIndex_def Let_def)
  have st: "(let b1 = (if buffer b ! seqNumToIndex b (SequenceNumber pkt) \<noteq> None
                     then b\<lparr>buffer := (buffer b)[seqNumToIndex b (SequenceNumber pkt) := None]\<rparr> else b)
             in b1\<lparr>buffer := (buffer b1)[seqNumToIndex b (SequenceNumber pkt)
                                   := Some (pkt\<lparr>Continuous := False\<rparr>)]\<rparr>)
            = storePacket b pkt"
    by (simp add: storePacket_def Let_def)
  show ?thesis
    unfolding InsertPacket_def Let_def dup
    using st unfolding Let_def by (simp add: case_prod_beta)
qed

lemma storePacket_wf: "wf_buffer b \<Longrightarrow> wf_buffer (storePacket b pkt)"
  by (simp add: wf_buffer_def storePacket_def)

lemma storePacket_bsize: "bsize (storePacket b pkt) = bsize b"
  by (simp add: storePacket_def)

lemma InsertPacket_inv:
  assumes wf: "wf_buffer b" and nh: "\<not> holds b (SequenceNumber pkt)"
  shows "scan_inv (storePacket b pkt)
           (SequenceNumber pkt - int (bsize b) div 2 + int (bsize b))
           (fst (InsertPacket b pkt), Frames (snd (InsertPacket b pkt)))"
  using findFrames_inv [OF storePacket_wf [OF wf], of pkt "SequenceNumber pkt"]
  by (simp add: InsertPacket_not_held [OF nh] storePacket_bsize)

lemma InsertPacket_wf:
  assumes "wf_buffer b"
  shows "wf_buffer (fst (InsertPacket b pkt)) \<and> bsize (fst (InsertPacket b pkt)) = bsize b"
proof (cases "holds b (SequenceNumber pkt)")
  case True
  then show ?thesis using assms by (simp add: InsertPacket_held)
next
  case False
  from InsertPacket_inv [OF assms False] show ?thesis
    by (simp add: scan_inv_def storePacket_bsize)
qed

lemma InsertPacket_frames_good:
  assumes "wf_buffer b"
  shows "list_all good_frame (Frames (snd (InsertPacket b pkt)))"
proof (cases "holds b (SequenceNumber pkt)")
  case True
  then show ?thesis by (simp add: InsertPacket_held)
next
  case False
  from InsertPacket_inv [OF assms False] show ?thesis
    by (simp add: scan_inv_def)
qed

lemma InsertPacket_frames_sorted:
  assumes "wf_buffer b"
  shows "sorted_wrt frame_before (Frames (snd (InsertPacket b pkt)))"
proof (cases "holds b (SequenceNumber pkt)")
  case True
  then show ?thesis by (simp add: InsertPacket_held)
next
  case False
  from InsertPacket_inv [OF assms False] show ?thesis
    by (simp add: scan_inv_def emitted_below_def)
qed

lemma InsertPacket_slot_rel:
  assumes wf: "wf_buffer b" and nh: "\<not> holds b (SequenceNumber pkt)" and i: "i < bsize b"
  shows "slot_rel (Frames (snd (InsertPacket b pkt)))
           (buffer (storePacket b pkt) ! i) (buffer (fst (InsertPacket b pkt)) ! i)"
proof -
  have "i < length (buffer (storePacket b pkt))"
    using wf i by (simp add: wf_buffer_def storePacket_def)
  then show ?thesis
    using InsertPacket_inv [OF wf nh] by (simp add: scan_inv_def)
qed


lemma NewVideoPacketBuffer_wf:
  assumes "NewVideoPacketBuffer sz = Some b"
  shows "wf_buffer b"
proof -
  have "sz \<noteq> 0" using assms by (auto simp: NewVideoPacketBuffer_def split: if_splits)
  then have "0 < unat sz" by (simp add: unat_gt_0)
  then show ?thesis
    using assms by (auto simp: NewVideoPacketBuffer_def wf_buffer_def split: if_splits)
qed


lemma InsertPackets_wf:
  "wf_buffer b \<Longrightarrow> wf_buffer (fst (InsertPackets b pkts))"
proof (induction pkts arbitrary: b)
  case Nil
  then show ?case by simp
next
  case (Cons pkt pkts)
  have "wf_buffer (fst (InsertPacket b pkt))"
    using InsertPacket_wf [OF Cons.prems] by simp
  from Cons.IH [OF this] show ?case
    by (simp add: case_prod_beta)
qed

lemma buffer64_wf: "wf_buffer buffer64"
  by (simp add: wf_buffer_def buffer64_def)

lemma buffer64_new: "NewVideoPacketBuffer 64 = Some buffer64"
  by (simp add: NewVideoPacketBuffer_def buffer64_def)

lemma stale_stream_eval:
  "map (map (\<lambda>p. (SequenceNumber p, Timestamp p)))
     (Frames (snd (InsertPacket (fst (InsertPackets buffer64 stale_stream))
                                (test_packet 2 1 [] False True))))
   = [[(0, 2), (1, 1), (2, 1)]]"
  by code_simp

lemma gap_stream_eval:
  "map (map SequenceNumber)
     (Frames (snd (InsertPacket (fst (InsertPackets buffer64 gap_stream))
                                (test_packet 133 2 [] True False))))
   = [[100..132], [133, 134]]"
  by code_simp

subsection \<open>Claims on the packet buffer\<close>

text \<open>
  Claim C1.  Every frame \<^verbatim>\<open>InsertPacket\<close> returns is a contiguous ascending run of
  sequence numbers whose first packet starts a frame and whose last packet ends one
  (\<open>InsertPacket_frames_good\<close>).  The timestamps, however, are compared only when a
  packet is marked continuous, and the mark is never taken back: in the stream below the
  packet 1 was marked while its predecessor was the first packet 0 with timestamp 1;
  that predecessor is then overwritten and the sequence number 0 arrives again with
  timestamp 2.  The packet 2 completes a frame whose packets carry the timestamps
  2, 1, 1.  The buffer is the one \<^verbatim>\<open>NewVideoPacketBuffer(64)\<close> returns
  (\<open>buffer64_new\<close>).
\<close>

theorem InsertPacket_mixed_timestamps:
  "map (map (\<lambda>p. (SequenceNumber p, Timestamp p)))
     (Frames (snd (InsertPacket (fst (InsertPackets buffer64 stale_stream))
                                (test_packet 2 1 [] False True))))
     = [[(0, 2), (1, 1), (2, 1)]]
   \<and> \<not> list_all one_timestamp
         (Frames (snd (InsertPacket (fst (InsertPackets buffer64 stale_stream))
                                    (test_packet 2 1 [] False True))))"
proof -
  let ?fs = "Frames (snd (InsertPacket (fst (InsertPackets buffer64 stale_stream))
                                       (test_packet 2 1 [] False True)))"
  have ev: "map (map (\<lambda>p. (SequenceNumber p, Timestamp p))) ?fs = [[(0, 2), (1, 1), (2, 1)]]"
    by (rule stale_stream_eval)
  then obtain a b c where fs: "?fs = [[a, b, c]]"
    and "Timestamp a = 2" "Timestamp b = 1"
    by (auto simp: map_eq_Cons_conv)
  then have "\<not> list_all one_timestamp ?fs"
    by (simp add: one_timestamp_def)
  with ev show ?thesis by simp
qed

text \<open>
  Claim C2.  One call of \<^verbatim>\<open>InsertPacket\<close> can return several frames: after the stream
  \<open>gap_stream\<close>, delivered to a new buffer of 64 slots, the packet 133 fills the gap
  between the waiting packets 132 and 134 and the call returns the two frames 100..132
  and 133..134.  Whatever the state of the buffer and the packet, the frames of one call
  are listed in ascending order of sequence numbers: every packet of a frame lies below
  every packet of each later frame.
\<close>

theorem InsertPacket_several_frames_ascending:
  "NewVideoPacketBuffer 64 = Some buffer64
   \<and> map (map SequenceNumber)
       (Frames (snd (InsertPacket (fst (InsertPackets buffer64 gap_stream))
                                  (test_packet 133 2 [] True False))))
       = [[100..132], [133, 134]]
   \<and> (\<forall>b pkt. wf_buffer b \<longrightarrow> sorted_wrt frame_before (Frames (snd (InsertPacket b pkt))))"
  using buffer64_new gap_stream_eval InsertPacket_frames_sorted by blast

theorem InsertPacket_several_frames_ascending_witness:
  "wf_buffer (fst (InsertPackets buffer64 gap_stream))
   \<and> map (map SequenceNumber)
        (Frames (snd (InsertPacket (fst (InsertPackets buffer64 gap_stream))
                                   (test_packet 133 2 [] True False))))
      = [[100..132], [133, 134]]
   \<and> sorted_wrt frame_before
        (Frames (snd (InsertPacket (fst (InsertPackets buffer64 gap_stream))
                                   (test_packet 133 2 [] True False))))"
proof -
  have wf: "wf_buffer (fst (InsertPackets buffer64 gap_stream))"
    by (rule InsertPackets_wf [OF buffer64_wf])
  then show ?thesis
    using InsertPacket_several_frames_ascending gap_stream_eval by blast
qed




text \<open>
  Claim C9, as the code has it.  A packet stored in a slot is, after any call of
  \<^verbatim>\<open>InsertPacket\<close>, still in its slot (possibly marked continuous) unless the call
  inserted a packet with a different sequence number that maps to the same slot, or the
  packet is part of a frame the call returned.  The code does not compare the age of
  the two packets: whenever the inserted packet maps to an occupied slot and differs in
  sequence number, the slot afterwards holds the inserted packet or is empty.
\<close>

theorem InsertPacket_removal:
  assumes wf: "wf_buffer b" and i: "i < bsize b" and q: "buffer b ! i = Some q"
  shows "(buffer (fst (InsertPacket b pkt)) ! i = Some q
    \<or> buffer (fst (InsertPacket b pkt)) ! i = Some (q\<lparr>Continuous := True\<rparr>)
    \<or> (i = seqNumToIndex b (SequenceNumber pkt) \<and> SequenceNumber q \<noteq> SequenceNumber pkt)
    \<or> (buffer (fst (InsertPacket b pkt)) ! i = None
        \<and> list_ex (\<lambda>f. q\<lparr>Continuous := True\<rparr> \<in> set f) (Frames (snd (InsertPacket b pkt)))))
   \<and> (i = seqNumToIndex b (SequenceNumber pkt) \<and> SequenceNumber q \<noteq> SequenceNumber pkt
        \<longrightarrow> (case buffer (fst (InsertPacket b pkt)) ! i of
               None \<Rightarrow> True
             | Some q' \<Rightarrow> SequenceNumber q' = SequenceNumber pkt))"
proof (cases "holds b (SequenceNumber pkt)")
  case True
  have "\<not> (i = seqNumToIndex b (SequenceNumber pkt) \<and> SequenceNumber q \<noteq> SequenceNumber pkt)"
    using True q by (auto simp: holds_def slotAt_def)
  then show ?thesis using q unfolding InsertPacket_held [OF True] by auto
next
  case False
  let ?b' = "fst (InsertPacket b pkt)"
  let ?fs = "Frames (snd (InsertPacket b pkt))"
  have len: "i < length (buffer b)" using wf i by (simp add: wf_buffer_def)
  have rel: "slot_rel ?fs (buffer (storePacket b pkt) ! i) (buffer ?b' ! i)"
    by (rule InsertPacket_slot_rel [OF wf False i])
  show ?thesis
  proof (cases "i = seqNumToIndex b (SequenceNumber pkt)")
    case ne: False
    then have "buffer (storePacket b pkt) ! i = Some q"
      using q by (simp add: storePacket_def)
    then show ?thesis using rel ne by (auto simp: slot_rel_def)
  next
    case eq: True
    have sq: "SequenceNumber q \<noteq> SequenceNumber pkt"
      using False q eq by (auto simp: holds_def slotAt_def)
    have "buffer (storePacket b pkt) ! i = Some (pkt\<lparr>Continuous := False\<rparr>)"
      using eq len by (simp add: storePacket_def)
    then have "buffer ?b' ! i = Some (pkt\<lparr>Continuous := False\<rparr>)
        \<or> buffer ?b' ! i = Some (pkt\<lparr>Continuous := True\<rparr>) \<or> buffer ?b' ! i = None"
      using rel by (auto simp: slot_rel_def)
    then have "(case buffer ?b' ! i of None \<Rightarrow> True
                | Some q' \<Rightarrow> SequenceNumber q' = SequenceNumber pkt)"
      by auto
    then show ?thesis using sq eq by simp
  qed
qed

theorem InsertPacket_removal_witness:
  "wf_buffer (fst (InsertPacket buffer64 (test_packet 64 1 [] True False)))
   \<and> (0::nat) < bsize (fst (InsertPacket buffer64 (test_packet 64 1 [] True False)))
   \<and> buffer (fst (InsertPacket buffer64 (test_packet 64 1 [] True False))) ! 0
       = Some ((test_packet 64 1 [] True False)\<lparr>Continuous := True\<rparr>)
   \<and> (case buffer (fst (InsertPacket (fst (InsertPacket buffer64 (test_packet 64 1 [] True False)))
                                     (test_packet 0 1 [] True False))) ! 0 of
         None \<Rightarrow> True
       | Some q' \<Rightarrow> SequenceNumber q' = SequenceNumber (test_packet 0 1 [] True False))"
proof -
  let ?b = "fst (InsertPacket buffer64 (test_packet 64 1 [] True False))"
  let ?q = "(test_packet 64 1 [] True False)\<lparr>Continuous := True\<rparr>"
  let ?p = "test_packet 0 1 [] True False"
  have wf: "wf_buffer ?b" and bs: "bsize ?b = bsize buffer64"
    using InsertPacket_wf [OF buffer64_wf] by simp_all
  have i: "(0::nat) < bsize ?b" using bs by (simp add: buffer64_def)
  have q: "buffer ?b ! 0 = Some ?q" by code_simp
  have idx: "0 = seqNumToIndex ?b (SequenceNumber ?p)"
    by (simp add: seqNumToIndex_def bs test_packet_def)
  have ne: "SequenceNumber ?q \<noteq> SequenceNumber ?p" by (simp add: test_packet_def)
  have "(case buffer (fst (InsertPacket ?b ?p)) ! 0 of
           None \<Rightarrow> True | Some q' \<Rightarrow> SequenceNumber q' = SequenceNumber ?p)"
    using InsertPacket_removal [OF wf i q, of ?p] idx ne by blast
  then show ?thesis using wf i q by blast
qed

text \<open>
  Claim C9 as stated fails: the slot 0 of a buffer of 64 slots holds the packet 64; the
  older packet 0 is inserted; afterwards the slot holds the packet 0, and the packet 64
  is in no returned frame.
\<close>

theorem InsertPacket_older_evicts_counterexample:
  "NewVideoPacketBuffer 64 = Some buffer64
   \<and> buffer (fst (InsertPacket buffer64 (test_packet 64 1 [] True False))) ! 0
     = Some ((test_packet 64 1 [] True False)\<lparr>Continuous := True\<rparr>)
   \<and> SequenceNumber (test_packet 0 1 [] True False)
       < SequenceNumber (test_packet 64 1 [] True False)
   \<and> buffer (fst (InsertPacket (fst (InsertPacket buffer64 (test_packet 64 1 [] True False)))
                               (test_packet 0 1 [] True False))) ! 0
     = Some ((test_packet 0 1 [] True False)\<lparr>Continuous := True\<rparr>)
   \<and> Frames (snd (InsertPacket (fst (InsertPacket buffer64 (test_packet 64 1 [] True False)))
                               (test_packet 0 1 [] True False))) = []"
proof -
  have "buffer (fst (InsertPacket buffer64 (test_packet 64 1 [] True False))) ! 0
     = Some ((test_packet 64 1 [] True False)\<lparr>Continuous := True\<rparr>)
   \<and> SequenceNumber (test_packet 0 1 [] True False)
       < SequenceNumber (test_packet 64 1 [] True False)
   \<and> buffer (fst (InsertPacket (fst (InsertPacket buffer64 (test_packet 64 1 [] True False)))
                               (test_packet 0 1 [] True False))) ! 0
     = Some ((test_packet 0 1 [] True False)\<lparr>Continuous := True\<rparr>)
   \<and> Frames (snd (InsertPacket (fst (InsertPacket buffer64 (test_packet 64 1 [] True False)))
                               (test_packet 0 1 [] True False))) = []"
    by code_simp
  with buffer64_new show ?thesis by simp
qed

section \<open>The frame assembler: proofs\<close>

lemma foldl_append_payload:
  "foldl (\<lambda>d pkt. d @ Payload pkt) acc packets = acc @ concat (map Payload packets)"
  by (induction packets arbitrary: acc) simp_all

lemma word16_and_FFFF: "(word_of_int (x AND 0xFFFF) :: 16 word) = word_of_int x"
proof -
  have "(word_of_int (x mod 65536) :: 16 word) = word_of_int x"
    by (simp add: word_of_int_eq_iff take_bit_eq_mod)
  then show ?thesis by (simp add: and_FFFF)
qed

subsection \<open>Claim on the frame assembler\<close>

text \<open>
  Claim C8.  For an empty list of packets \<^verbatim>\<open>AssembleFrame\<close> returns no frame and leaves
  the counter as it is.  For a non-empty list it returns a frame whose data is the
  concatenation of the payloads in list order, whose timestamp is the first packet's,
  whose frame type is that of the first packet's header (the zero value
  \<^verbatim>\<open>FrameTypeKey\<close> when the packet has no header), whose 16-bit first and last
  sequence numbers are those of the first and the last packet, and whose identifier is
  the value of the counter, which the call increments by one.
\<close>

theorem AssembleFrame_correct:
  "AssembleFrame a [] = (a, None)
   \<and> (packets \<noteq> [] \<longrightarrow>
        (\<exists>frame. AssembleFrame a packets
                    = (a\<lparr>frameIDCounter := frameIDCounter a + 1\<rparr>, Some frame)
           \<and> Data frame = concat (map Payload packets)
           \<and> frame_Timestamp frame = Timestamp (hd packets)
           \<and> frame_FrameType frame
               = (case VideoHeader (hd packets) of
                    None \<Rightarrow> FrameTypeKey | Some h \<Rightarrow> FrameType h)
           \<and> FirstSeqNum frame = word_of_int (SequenceNumber (hd packets))
           \<and> LastSeqNum frame = word_of_int (SequenceNumber (last packets))
           \<and> ID frame = frameIDCounter a
           \<and> NumReferences frame = 0))"
proof -
  have e: "AssembleFrame a [] = (a, None)" by (simp add: AssembleFrame_def)
  have ne: "\<exists>frame. AssembleFrame a packets
                    = (a\<lparr>frameIDCounter := frameIDCounter a + 1\<rparr>, Some frame)
           \<and> Data frame = concat (map Payload packets)
           \<and> frame_Timestamp frame = Timestamp (hd packets)
           \<and> frame_FrameType frame
               = (case VideoHeader (hd packets) of
                    None \<Rightarrow> FrameTypeKey | Some h \<Rightarrow> FrameType h)
           \<and> FirstSeqNum frame = word_of_int (SequenceNumber (hd packets))
           \<and> LastSeqNum frame = word_of_int (SequenceNumber (last packets))
           \<and> ID frame = frameIDCounter a
           \<and> NumReferences frame = 0" if "packets \<noteq> []"
  proof -
    have h: "packets ! 0 = hd packets" using that by (simp add: hd_conv_nth)
    have l: "packets ! (length packets - Suc 0) = last packets"
      using that by (simp add: last_conv_nth)
    show ?thesis
      using that
      by (cases "VideoHeader (hd packets)")
         (simp_all add: AssembleFrame_def Let_def h l foldl_append_payload word16_and_FFFF)
  qed
  show ?thesis using e ne by blast
qed


theorem AssembleFrame_correct_witness:
  "[test_packet 65534 90000 [1, 2] True False, test_packet 65537 90000 [3] False True] \<noteq> []
   \<and> fst (AssembleFrame NewVideoFrameAssembler
        [test_packet 65534 90000 [1, 2] True False, test_packet 65537 90000 [3] False True])
       = \<lparr>frameIDCounter = 1\<rparr>
   \<and> map_option (\<lambda>f. (ID f, Data f, frame_Timestamp f, frame_FrameType f, FirstSeqNum f, LastSeqNum f))
        (snd (AssembleFrame NewVideoFrameAssembler
          [test_packet 65534 90000 [1, 2] True False, test_packet 65537 90000 [3] False True]))
       = Some (0, [1, 2, 3], 90000, FrameTypeKey, 65534, 1)"
proof -
  let ?ps = "[test_packet 65534 90000 [1, 2] True False, test_packet 65537 90000 [3] False True]"
  have ne: "?ps \<noteq> []" by simp
  from AssembleFrame_correct [of NewVideoFrameAssembler ?ps] ne
  obtain frame where
    "AssembleFrame NewVideoFrameAssembler ?ps
       = (NewVideoFrameAssembler\<lparr>frameIDCounter := frameIDCounter NewVideoFrameAssembler + 1\<rparr>,
          Some frame)"
    "Data frame = concat (map Payload ?ps)"
    "frame_Timestamp frame = Timestamp (hd ?ps)"
    "frame_FrameType frame = (case VideoHeader (hd ?ps) of None \<Rightarrow> FrameTypeKey | Some h \<Rightarrow> FrameType h)"
    "FirstSeqNum frame = word_of_int (SequenceNumber (hd ?ps))"
    "LastSeqNum frame = word_of_int (SequenceNumber (last ?ps))"
    "ID frame = frameIDCounter NewVideoFrameAssembler"
    by blast
  then show ?thesis
    by (simp add: test_packet_def NewVideoFrameAssembler_def)
qed

section \<open>The reference finders: proofs\<close>


declare tryResolveStashedFrames.simps [simp del]

lemma findResolvable_first:
  "findResolvable e ss = Some i \<Longrightarrow> FirstSeqNumUnwrapped (sFrame (ss ! i)) = e"
  by (induction ss arbitrary: i) (auto split: if_splits)















lemma stashFrame_member:
  "\<lparr>sFrame = frame, sHeader = header\<rparr> \<in> set (stashedFrames (stashFrame f frame header))"
  by (simp add: stashFrame_def Let_def)

lemma tryResolveStashedFrames_chain:
  "list_all (\<lambda>s. length (References (sFrame s)) = 5) (stashedFrames f) \<Longrightarrow>
   resolved_chain (lastFrameFirstSeqNum f) (lastFrameLastSeqNum f)
     (snd (tryResolveStashedFrames f))"
proof (induction f rule: tryResolveStashedFrames.induct)
  case (1 f)
  show ?case
  proof (cases "findResolvable (lastFrameLastSeqNum f + 1) (stashedFrames f)")
    case None
    then show ?thesis by (subst tryResolveStashedFrames.simps) simp
  next
    case (Some i)
    define stashed where "stashed = stashedFrames f ! i"
    define frame where "frame = setDeltaReference (sFrame stashed) (lastFrameFirstSeqNum f)"
    define f' where "f' = f\<lparr>lastFrameFirstSeqNum := FirstSeqNumUnwrapped (sFrame stashed),
                     lastFrameLastSeqNum := LastSeqNumUnwrapped (sFrame stashed),
                     stashedFrames := take i (stashedFrames f) @ drop (i + 1) (stashedFrames f)\<rparr>"
    have i: "i < length (stashedFrames f)" by (rule findResolvable_less [OF Some])
    then have mem: "stashed \<in> set (stashedFrames f)" by (simp add: stashed_def)
    then have len: "length (References (sFrame stashed)) = 5"
      using "1.prems" by (simp add: list_all_iff)
    have first: "FirstSeqNumUnwrapped (sFrame stashed) = lastFrameLastSeqNum f + 1"
      unfolding stashed_def by (rule findResolvable_first [OF Some])
    have sub: "set (stashedFrames f') \<subseteq> set (stashedFrames f)"
      by (auto simp: f'_def dest: in_set_takeD in_set_dropD)
    then have pre: "list_all (\<lambda>s. length (References (sFrame s)) = 5) (stashedFrames f')"
      using "1.prems" by (auto simp: list_all_iff)
    have unf: "tryResolveStashedFrames f =
        (fst (tryResolveStashedFrames f'), frame # snd (tryResolveStashedFrames f'))"
      by (subst tryResolveStashedFrames.simps)
         (simp add: Some Let_def stashed_def frame_def f'_def case_prod_beta)
    have ih: "resolved_chain (lastFrameFirstSeqNum f') (lastFrameLastSeqNum f')
                (snd (tryResolveStashedFrames f'))"
      using "1.IH" [OF Some stashed_def frame_def f'_def pre] .
    obtain r rs where rs: "References (sFrame stashed) = r # rs"
      using len by (cases "References (sFrame stashed)") simp_all
    have hd: "ID frame = FirstSeqNumUnwrapped frame \<and> NumReferences frame = 1
        \<and> References frame ! 0 = lastFrameFirstSeqNum f
        \<and> FirstSeqNumUnwrapped frame = lastFrameLastSeqNum f + 1
        \<and> FirstSeqNumUnwrapped frame = lastFrameFirstSeqNum f'
        \<and> LastSeqNumUnwrapped frame = lastFrameLastSeqNum f'"
      by (simp add: frame_def setDeltaReference_def first f'_def rs)
    have "resolved_chain (FirstSeqNumUnwrapped frame) (LastSeqNumUnwrapped frame)
            (snd (tryResolveStashedFrames f'))"
      using hd ih by metis
    then show ?thesis
      unfolding unf using hd by simp
  qed
qed

lemma SeqNumOnly_handleDeltaFrame_chain:
  assumes "length (References frame) = 5"
    and "list_all (\<lambda>s. length (References (sFrame s)) = 5) (stashedFrames f)"
    and "gotInitialFrame f" and "FirstSeqNumUnwrapped frame = lastFrameLastSeqNum f + 1"
  shows "resolved_chain (lastFrameFirstSeqNum f) (lastFrameLastSeqNum f)
           (snd (SeqNumOnly_handleDeltaFrame f frame header))"
proof -
  define f1 where "f1 = f\<lparr>lastFrameFirstSeqNum := FirstSeqNumUnwrapped frame,
                          lastFrameLastSeqNum := LastSeqNumUnwrapped frame\<rparr>"
  have unf: "SeqNumOnly_handleDeltaFrame f frame header =
      (fst (tryResolveStashedFrames f1),
       setDeltaReference frame (lastFrameFirstSeqNum f) # snd (tryResolveStashedFrames f1))"
    using assms(3,4)
    by (simp add: SeqNumOnly_handleDeltaFrame_def Let_def f1_def case_prod_beta setDeltaReference_def)
  have "list_all (\<lambda>s. length (References (sFrame s)) = 5) (stashedFrames f1)"
    using assms(2) by (simp add: f1_def)
  from tryResolveStashedFrames_chain [OF this]
  have ch: "resolved_chain (FirstSeqNumUnwrapped frame) (LastSeqNumUnwrapped frame)
              (snd (tryResolveStashedFrames f1))"
    by (simp add: f1_def)
  obtain r rs where rs: "References frame = r # rs"
    using assms(1) by (cases "References frame") simp_all
  show ?thesis
    unfolding unf using ch assms(4) by (simp add: setDeltaReference_def rs)
qed

subsection \<open>Claims on the finders on sequence numbers and on picture identifiers\<close>

text \<open>
  Claim C4.  The finder on sequence numbers treats a delta frame as follows.  Before the
  first key frame the frame is stashed and nothing is emitted.  Otherwise, if the frame
  starts right after the last processed frame ends, it is emitted first, with its
  identifier set to its first unwrapped sequence number, one reference, and
  \<open>References ! 0\<close> the first unwrapped sequence number of the previous frame; the two
  last-frame fields are set to the frame's first and last sequence number before the
  stash is searched for frames that now follow.  Otherwise the frame is dropped when it
  starts before the current GOP, and stashed in every remaining case.  A stashed frame
  is in the stash afterwards.  The frames that the search of the stash adds to the
  emitted frame are resolved in the same way, each against the frame emitted before it.
\<close>

theorem SeqNumOnly_delta_frame_handling:
  assumes "frame_FrameType frame = FrameTypeDelta" and "length (References frame) = 5"
  shows
   "(\<not> gotInitialFrame f \<longrightarrow>
        SeqNumOnly_ManageFrame f (Some frame) header = (stashFrame f frame header, []))
    \<and> (gotInitialFrame f \<and> FirstSeqNumUnwrapped frame = lastFrameLastSeqNum f + 1 \<longrightarrow>
        SeqNumOnly_ManageFrame f (Some frame) header
          = (fst (tryResolveStashedFrames
                   (f\<lparr>lastFrameFirstSeqNum := FirstSeqNumUnwrapped frame,
                      lastFrameLastSeqNum := LastSeqNumUnwrapped frame\<rparr>)),
             frame\<lparr>ID := FirstSeqNumUnwrapped frame, NumReferences := 1,
                   References := (References frame)[0 := lastFrameFirstSeqNum f]\<rparr>
             # snd (tryResolveStashedFrames
                   (f\<lparr>lastFrameFirstSeqNum := FirstSeqNumUnwrapped frame,
                      lastFrameLastSeqNum := LastSeqNumUnwrapped frame\<rparr>)))
        \<and> ID (hd (snd (SeqNumOnly_ManageFrame f (Some frame) header)))
            = FirstSeqNumUnwrapped frame
        \<and> NumReferences (hd (snd (SeqNumOnly_ManageFrame f (Some frame) header))) = 1
        \<and> References (hd (snd (SeqNumOnly_ManageFrame f (Some frame) header))) ! 0
            = lastFrameFirstSeqNum f)
    \<and> (gotInitialFrame f \<and> FirstSeqNumUnwrapped frame \<noteq> lastFrameLastSeqNum f + 1
         \<and> FirstSeqNumUnwrapped frame < lastSeqNumGOP f \<longrightarrow>
        SeqNumOnly_ManageFrame f (Some frame) header = (f, []))
    \<and> (gotInitialFrame f \<and> FirstSeqNumUnwrapped frame \<noteq> lastFrameLastSeqNum f + 1
         \<and> \<not> FirstSeqNumUnwrapped frame < lastSeqNumGOP f \<longrightarrow>
        SeqNumOnly_ManageFrame f (Some frame) header = (stashFrame f frame header, []))
    \<and> \<lparr>sFrame = frame, sHeader = header\<rparr> \<in> set (stashedFrames (stashFrame f frame header))
    \<and> (gotInitialFrame f \<and> FirstSeqNumUnwrapped frame = lastFrameLastSeqNum f + 1
         \<and> list_all (\<lambda>s. length (References (sFrame s)) = 5) (stashedFrames f) \<longrightarrow>
        resolved_chain (lastFrameFirstSeqNum f) (lastFrameLastSeqNum f)
          (snd (SeqNumOnly_ManageFrame f (Some frame) header)))"
proof -
  have m: "SeqNumOnly_ManageFrame f (Some frame) header = SeqNumOnly_handleDeltaFrame f frame header"
    using assms(1) by (simp add: SeqNumOnly_ManageFrame_def)
  have a: "\<not> gotInitialFrame f \<longrightarrow>
        SeqNumOnly_ManageFrame f (Some frame) header = (stashFrame f frame header, [])"
    by (simp add: m SeqNumOnly_handleDeltaFrame_def)
  have b: "SeqNumOnly_ManageFrame f (Some frame) header
          = (fst (tryResolveStashedFrames
                   (f\<lparr>lastFrameFirstSeqNum := FirstSeqNumUnwrapped frame,
                      lastFrameLastSeqNum := LastSeqNumUnwrapped frame\<rparr>)),
             frame\<lparr>ID := FirstSeqNumUnwrapped frame, NumReferences := 1,
                   References := (References frame)[0 := lastFrameFirstSeqNum f]\<rparr>
             # snd (tryResolveStashedFrames
                   (f\<lparr>lastFrameFirstSeqNum := FirstSeqNumUnwrapped frame,
                      lastFrameLastSeqNum := LastSeqNumUnwrapped frame\<rparr>)))"
    if "gotInitialFrame f" "FirstSeqNumUnwrapped frame = lastFrameLastSeqNum f + 1"
    using that
    by (simp add: m SeqNumOnly_handleDeltaFrame_def Let_def setDeltaReference_def case_prod_beta)
  have b': "ID (hd (snd (SeqNumOnly_ManageFrame f (Some frame) header)))
            = FirstSeqNumUnwrapped frame
        \<and> NumReferences (hd (snd (SeqNumOnly_ManageFrame f (Some frame) header))) = 1
        \<and> References (hd (snd (SeqNumOnly_ManageFrame f (Some frame) header))) ! 0
            = lastFrameFirstSeqNum f"
    if "gotInitialFrame f" "FirstSeqNumUnwrapped frame = lastFrameLastSeqNum f + 1"
    unfolding b [OF that] using assms(2) by simp
  have c: "gotInitialFrame f \<and> FirstSeqNumUnwrapped frame \<noteq> lastFrameLastSeqNum f + 1
         \<and> FirstSeqNumUnwrapped frame < lastSeqNumGOP f \<longrightarrow>
        SeqNumOnly_ManageFrame f (Some frame) header = (f, [])"
    by (simp add: m SeqNumOnly_handleDeltaFrame_def)
  have d: "gotInitialFrame f \<and> FirstSeqNumUnwrapped frame \<noteq> lastFrameLastSeqNum f + 1
         \<and> \<not> FirstSeqNumUnwrapped frame < lastSeqNumGOP f \<longrightarrow>
        SeqNumOnly_ManageFrame f (Some frame) header = (stashFrame f frame header, [])"
    by (simp add: m SeqNumOnly_handleDeltaFrame_def)
  have e: "gotInitialFrame f \<and> FirstSeqNumUnwrapped frame = lastFrameLastSeqNum f + 1
         \<and> list_all (\<lambda>s. length (References (sFrame s)) = 5) (stashedFrames f) \<longrightarrow>
        resolved_chain (lastFrameFirstSeqNum f) (lastFrameLastSeqNum f)
          (snd (SeqNumOnly_ManageFrame f (Some frame) header))"
    unfolding m using SeqNumOnly_handleDeltaFrame_chain [OF assms(2)] by blast
  show ?thesis using a b b' c d e stashFrame_member by blast
qed

lemma out_of_order_state:
  "fst (SeqNumOnly_ManageFrames NewSeqNumOnlyRefFinder
         [(test_frame 1000 1000 FrameTypeKey, None), (test_frame 1002 1002 FrameTypeDelta, None)])
   = \<lparr>lastSeqNumGOP = 1000, lastFrameFirstSeqNum = 1000, lastFrameLastSeqNum = 1000,
      gotInitialFrame = True,
      stashedFrames = [\<lparr>sFrame = test_frame 1002 1002 FrameTypeDelta, sHeader = None\<rparr>]\<rparr>"
  by code_simp

theorem SeqNumOnly_delta_frame_handling_witness:
  "frame_FrameType (test_frame 1001 1001 FrameTypeDelta) = FrameTypeDelta
   \<and> length (References (test_frame 1001 1001 FrameTypeDelta)) = 5
   \<and> map (\<lambda>e. (ID e, NumReferences e, References e ! 0))
        (snd (SeqNumOnly_ManageFrame
               (fst (SeqNumOnly_ManageFrames NewSeqNumOnlyRefFinder
                      [(test_frame 1000 1000 FrameTypeKey, None),
                       (test_frame 1002 1002 FrameTypeDelta, None)]))
               (Some (test_frame 1001 1001 FrameTypeDelta)) None))
      = [(1001, 1, 1000), (1002, 1, 1001)]"
proof -
  let ?f = "fst (SeqNumOnly_ManageFrames NewSeqNumOnlyRefFinder
                      [(test_frame 1000 1000 FrameTypeKey, None),
                       (test_frame 1002 1002 FrameTypeDelta, None)])"
  let ?fr = "test_frame 1001 1001 FrameTypeDelta"
  have t: "frame_FrameType ?fr = FrameTypeDelta" and l: "length (References ?fr) = 5"
    by (simp_all add: test_frame_def)
  have g: "gotInitialFrame ?f \<and> FirstSeqNumUnwrapped ?fr = lastFrameLastSeqNum ?f + 1"
    unfolding out_of_order_state by (simp add: test_frame_def)
  have eq: "SeqNumOnly_ManageFrame ?f (Some ?fr) None
          = (fst (tryResolveStashedFrames
                   (?f\<lparr>lastFrameFirstSeqNum := FirstSeqNumUnwrapped ?fr,
                       lastFrameLastSeqNum := LastSeqNumUnwrapped ?fr\<rparr>)),
             ?fr\<lparr>ID := FirstSeqNumUnwrapped ?fr, NumReferences := 1,
                   References := (References ?fr)[0 := lastFrameFirstSeqNum ?f]\<rparr>
             # snd (tryResolveStashedFrames
                   (?f\<lparr>lastFrameFirstSeqNum := FirstSeqNumUnwrapped ?fr,
                       lastFrameLastSeqNum := LastSeqNumUnwrapped ?fr\<rparr>)))"
    using SeqNumOnly_delta_frame_handling [OF t l, of ?f None] g by blast
  have ev: "map (\<lambda>e. (ID e, NumReferences e, References e ! 0))
      (?fr\<lparr>ID := FirstSeqNumUnwrapped ?fr, NumReferences := 1,
                   References := (References ?fr)[0 := lastFrameFirstSeqNum ?f]\<rparr>
             # snd (tryResolveStashedFrames
                   (?f\<lparr>lastFrameFirstSeqNum := FirstSeqNumUnwrapped ?fr,
                       lastFrameLastSeqNum := LastSeqNumUnwrapped ?fr\<rparr>)))
      = [(1001, 1, 1000), (1002, 1, 1001)]"
    unfolding out_of_order_state by code_simp
  have "map (\<lambda>e. (ID e, NumReferences e, References e ! 0))
          (snd (SeqNumOnly_ManageFrame ?f (Some ?fr) None))
        = [(1001, 1, 1000), (1002, 1, 1001)]"
    by (simp only: eq snd_conv ev)
  then show ?thesis by (intro conjI t l)
qed



lemma scanLayers_length: "length (scanLayers info ts) \<le> 1"
  by (induction ts) simp_all

lemma anyBaseLayer_length: "length (anyBaseLayer li) \<le> 1"
  by (induction li rule: anyBaseLayer.induct) simp_all

lemma getReferences_length:
  assumes "getReferences f pid tl0 prevTL0 tid = Some refs"
  shows "length refs = 1"
proof (cases "tid = 0")
  case True
  then show ?thesis using assms
    by (auto simp: getReferences_def split: option.splits if_splits)
next
  case False
  have le: "length refs \<le> 1"
    using assms False scanLayers_length anyBaseLayer_length
    by (auto simp: getReferences_def Let_def split: option.splits if_splits)
  have "refs \<noteq> []"
    using assms False by (auto simp: getReferences_def Let_def split: option.splits if_splits)
  then show ?thesis using le by (cases refs) simp_all
qed

lemma updateLayerInfo_Some:
  assumes "0 \<le> tid" "tid < 4"
  shows "updateLayerInfo f tl0 tid pid =
     Some (f\<lparr>layerInfo := AList.update tl0
              ((case map_of (layerInfo f) tl0 of None \<Rightarrow> replicate 4 0 | Some info \<Rightarrow> info)
                 [nat tid := pid + 1]) (layerInfo f)\<rparr>)"
  using assms by (simp add: updateLayerInfo_def maxTemporalLayers_def Let_def)

lemma clampTid_less: "clampTid t < 4"
  by (simp add: clampTid_def maxTemporalLayers_def)

lemma updateLayerInfo_None:
  assumes "tid < 0"
  shows "updateLayerInfo f tl0 tid pid = None"
  using assms by (simp add: updateLayerInfo_def Let_def)

lemma VP8_stashFrame_member:
  "\<lparr>vFrame = frame, vHeader = header, unwrappedPID = uPID, unwrappedTL0 = uTL0\<rparr>
     \<in> set (vp8_stashedFrames (VP8_stashFrame f frame header uPID uTL0))"
  by (simp add: VP8_stashFrame_def Let_def)

lemma VP8_stashFrame_others:
  "layerInfo (VP8_stashFrame f frame header uPID uTL0) = layerInfo f
   \<and> lastPictureID (VP8_stashFrame f frame header uPID uTL0) = lastPictureID f
   \<and> vp8_gotInitialFrame (VP8_stashFrame f frame header uPID uTL0) = vp8_gotInitialFrame f"
  by (simp add: VP8_stashFrame_def Let_def)

lemma vp8_after_key_reached:
  "map_option fst (VP8_ManageFrame NewVP8RefFinder (Some (test_frame 0 0 FrameTypeKey))
                     (Some (test_header 0 0 0)))
     = Some vp8_after_key"
  by code_simp

subsection \<open>Claim on the VP8 finder\<close>

text \<open>
  Claim C10, as the code has it.  A header without temporal index, TL0PICIDX or picture
  identifier sends the frame to \<^verbatim>\<open>fallbackManageFrame\<close>.  Otherwise both values are
  unwrapped, and a frame one of whose unwrapped values is negative is dropped:
  \<^verbatim>\<open>ManageFrame\<close> returns no frame and changes nothing but the unwrappers.  A frame
  that passes these two tests takes the key-frame path exactly when its frame type is
  key and its clamped temporal index is 0; every other frame goes to
  \<^verbatim>\<open>handleDeltaFrame\<close>.  A key frame with a nonzero clamped temporal index is
  therefore stashed when no initial frame has been seen or no reference is found: the
  call returns no frame, the stash afterwards contains the frame with its header and
  its unwrapped values, and the layer map is as before.  Otherwise a reference is found,
  exactly one: for a positive temporal index the frame is emitted with
  \<open>NumReferences = 1\<close> (not 0), and the layer map is not reset: only the entry of its
  temporal layer under its TL0PICIDX is written; for a negative temporal index the write
  to the layer array is out of range.
\<close>

theorem VP8_key_frame_path:
  assumes "pictureID_Unwrap (pictureIDUnwrapper f) (PictureID header) = (pu, uPID)"
    and "tl0PicIdx_Unwrap (tl0Unwrapper f) (TL0PicIdx header) = (tu, uTL0)"
  shows
    "(TemporalIdx header = NoTemporalIdx \<or> TL0PicIdx header = NoTL0PicIdx
        \<or> PictureID header = NoPictureID \<longrightarrow>
        VP8_ManageFrame f (Some frame) (Some header)
          = Some (fallbackManageFrame f frame header))
     \<and> (TemporalIdx header \<noteq> NoTemporalIdx \<and> TL0PicIdx header \<noteq> NoTL0PicIdx
        \<and> PictureID header \<noteq> NoPictureID \<and> (uPID < 0 \<or> uTL0 < 0) \<longrightarrow>
        VP8_ManageFrame f (Some frame) (Some header)
          = Some (f\<lparr>pictureIDUnwrapper := pu, tl0Unwrapper := tu\<rparr>, []))
     \<and> (TemporalIdx header \<noteq> NoTemporalIdx \<and> TL0PicIdx header \<noteq> NoTL0PicIdx
        \<and> PictureID header \<noteq> NoPictureID \<and> 0 \<le> uPID \<and> 0 \<le> uTL0 \<longrightarrow>
        VP8_ManageFrame f (Some frame) (Some header)
          = (if frame_FrameType frame = FrameTypeKey \<and> clampTid (TemporalIdx header) = 0
             then VP8_handleKeyframe (f\<lparr>pictureIDUnwrapper := pu, tl0Unwrapper := tu\<rparr>)
                    (frame\<lparr>ID := uPID\<rparr>) header uPID uTL0 (clampTid (TemporalIdx header))
             else VP8_handleDeltaFrame (f\<lparr>pictureIDUnwrapper := pu, tl0Unwrapper := tu\<rparr>)
                    (frame\<lparr>ID := uPID\<rparr>) header uPID uTL0 (clampTid (TemporalIdx header)))
        \<and> (frame_FrameType frame = FrameTypeKey \<and> clampTid (TemporalIdx header) \<noteq> 0 \<longrightarrow>
             (\<not> vp8_gotInitialFrame f \<or>
                getReferences (f\<lparr>pictureIDUnwrapper := pu, tl0Unwrapper := tu\<rparr>) uPID uTL0 uTL0
                  (clampTid (TemporalIdx header)) = None \<longrightarrow>
              VP8_ManageFrame f (Some frame) (Some header)
                = Some (VP8_stashFrame (f\<lparr>pictureIDUnwrapper := pu, tl0Unwrapper := tu\<rparr>)
                          (frame\<lparr>ID := uPID\<rparr>) header uPID uTL0, [])
              \<and> \<lparr>vFrame = frame\<lparr>ID := uPID\<rparr>, vHeader = header,
                  unwrappedPID = uPID, unwrappedTL0 = uTL0\<rparr>
                  \<in> set (vp8_stashedFrames
                           (VP8_stashFrame (f\<lparr>pictureIDUnwrapper := pu, tl0Unwrapper := tu\<rparr>)
                              (frame\<lparr>ID := uPID\<rparr>) header uPID uTL0))
              \<and> layerInfo (VP8_stashFrame (f\<lparr>pictureIDUnwrapper := pu, tl0Unwrapper := tu\<rparr>)
                             (frame\<lparr>ID := uPID\<rparr>) header uPID uTL0) = layerInfo f)
             \<and> (\<forall>refs. vp8_gotInitialFrame f \<and>
                    getReferences (f\<lparr>pictureIDUnwrapper := pu, tl0Unwrapper := tu\<rparr>) uPID uTL0 uTL0
                      (clampTid (TemporalIdx header)) = Some refs \<longrightarrow>
                  length refs = 1
                  \<and> (clampTid (TemporalIdx header) < 0 \<longrightarrow>
                       VP8_ManageFrame f (Some frame) (Some header) = None)
                  \<and> (0 < clampTid (TemporalIdx header) \<longrightarrow>
                       VP8_ManageFrame f (Some frame) (Some header)
                         = map_option
                             (\<lambda>(f', resolved).
                                (f', frame\<lparr>ID := uPID, NumReferences := 1,
                                           References := (References frame)[0 := hd refs]\<rparr>
                                       # resolved))
                             (VP8_tryResolveStashedFrames
                                (f\<lparr>pictureIDUnwrapper := pu, tl0Unwrapper := tu,
                                   layerInfo := AList.update uTL0
                                     ((case map_of (layerInfo f) uTL0 of
                                         None \<Rightarrow> replicate 4 0 | Some info \<Rightarrow> info)
                                        [nat (clampTid (TemporalIdx header)) := uPID + 1])
                                     (layerInfo f),
                                   lastPictureID := uPID\<rparr>))))))"
proof -
  let ?f1 = "f\<lparr>pictureIDUnwrapper := pu, tl0Unwrapper := tu\<rparr>"
  let ?fr = "frame\<lparr>ID := uPID\<rparr>"
  let ?tid = "clampTid (TemporalIdx header)"
  let ?M = "VP8_ManageFrame f (Some frame) (Some header)"
  let ?complete = "TemporalIdx header \<noteq> NoTemporalIdx \<and> TL0PicIdx header \<noteq> NoTL0PicIdx
        \<and> PictureID header \<noteq> NoPictureID"
  have fb: "?M = Some (fallbackManageFrame f frame header)"
    if "TemporalIdx header = NoTemporalIdx \<or> TL0PicIdx header = NoTL0PicIdx
        \<or> PictureID header = NoPictureID"
    using that by (auto simp: VP8_ManageFrame_def)
  have dr: "?M = Some (?f1, [])" if "?complete" "uPID < 0 \<or> uTL0 < 0"
    using that assms by (auto simp: VP8_ManageFrame_def Let_def)
  have m: "?M = (if frame_FrameType frame = FrameTypeKey \<and> ?tid = 0
          then VP8_handleKeyframe ?f1 ?fr header uPID uTL0 ?tid
          else VP8_handleDeltaFrame ?f1 ?fr header uPID uTL0 ?tid)"
    if "?complete" "0 \<le> uPID" "0 \<le> uTL0"
    using that assms by (simp add: VP8_ManageFrame_def Let_def)
  have st: "?M = Some (VP8_stashFrame ?f1 ?fr header uPID uTL0, [])"
    if "?complete" "0 \<le> uPID" "0 \<le> uTL0"
      "frame_FrameType frame = FrameTypeKey" "?tid \<noteq> 0"
      "\<not> vp8_gotInitialFrame f \<or> getReferences ?f1 uPID uTL0 uTL0 ?tid = None"
    using that(4-6) by (auto simp: m [OF that(1-3)] VP8_handleDeltaFrame_def Let_def)
  have mem: "\<lparr>vFrame = ?fr, vHeader = header, unwrappedPID = uPID, unwrappedTL0 = uTL0\<rparr>
      \<in> set (vp8_stashedFrames (VP8_stashFrame ?f1 ?fr header uPID uTL0))"
    by (rule VP8_stashFrame_member)
  have li: "layerInfo (VP8_stashFrame ?f1 ?fr header uPID uTL0) = layerInfo f"
    using VP8_stashFrame_others [of ?f1 ?fr header uPID uTL0] by simp
  have pn: "?M = None"
    if c: "?complete" "0 \<le> uPID" "0 \<le> uTL0"
      and k: "frame_FrameType frame = FrameTypeKey" and g: "vp8_gotInitialFrame f"
      and t: "?tid < 0" and r: "getReferences ?f1 uPID uTL0 uTL0 ?tid = Some refs" for refs
  proof -
    have "?M = VP8_handleDeltaFrame ?f1 ?fr header uPID uTL0 ?tid"
      using t by (simp add: m [OF c])
    also have "\<dots> = None"
      using g t r by (simp add: VP8_handleDeltaFrame_def Let_def updateLayerInfo_None)
    finally show ?thesis .
  qed
  have em: "?M = map_option
               (\<lambda>(f', resolved).
                  (f', frame\<lparr>ID := uPID, NumReferences := 1,
                             References := (References frame)[0 := hd refs]\<rparr> # resolved))
               (VP8_tryResolveStashedFrames
                  (f\<lparr>pictureIDUnwrapper := pu, tl0Unwrapper := tu,
                     layerInfo := AList.update uTL0
                       ((case map_of (layerInfo f) uTL0 of
                           None \<Rightarrow> replicate 4 0 | Some info \<Rightarrow> info)
                          [nat ?tid := uPID + 1])
                       (layerInfo f),
                     lastPictureID := uPID\<rparr>))"
    if c: "?complete" "0 \<le> uPID" "0 \<le> uTL0"
      and k: "frame_FrameType frame = FrameTypeKey" and g: "vp8_gotInitialFrame f"
      and t: "0 < ?tid" and r: "getReferences ?f1 uPID uTL0 uTL0 ?tid = Some refs" for refs
  proof -
    have l: "length refs = 1" by (rule getReferences_length [OF r])
    then obtain x where x: "refs = [x]" by (cases refs) simp_all
    have w: "writeReferences (References frame) refs = (References frame)[0 := hd refs]"
      by (simp add: x writeReferences_def)
    have u: "updateLayerInfo ?f1 uTL0 ?tid uPID =
       Some (?f1\<lparr>layerInfo := AList.update uTL0
              ((case map_of (layerInfo ?f1) uTL0 of None \<Rightarrow> replicate 4 0 | Some info \<Rightarrow> info)
                 [nat ?tid := uPID + 1]) (layerInfo ?f1)\<rparr>)"
      using t clampTid_less by (intro updateLayerInfo_Some) simp_all
    have "?M = VP8_handleDeltaFrame ?f1 ?fr header uPID uTL0 ?tid"
      using t by (simp add: m [OF c])
    also have "\<dots> = map_option
               (\<lambda>(f', resolved).
                  (f', frame\<lparr>ID := uPID, NumReferences := 1,
                             References := (References frame)[0 := hd refs]\<rparr> # resolved))
               (VP8_tryResolveStashedFrames
                  (f\<lparr>pictureIDUnwrapper := pu, tl0Unwrapper := tu,
                     layerInfo := AList.update uTL0
                       ((case map_of (layerInfo f) uTL0 of
                           None \<Rightarrow> replicate 4 0 | Some info \<Rightarrow> info)
                          [nat ?tid := uPID + 1])
                       (layerInfo f),
                     lastPictureID := uPID\<rparr>))"
      using g t r
      by (simp add: VP8_handleDeltaFrame_def Let_def u w l map_option_case
               split: option.splits)
    finally show ?thesis .
  qed
  show ?thesis
    using fb dr m st mem li pn em getReferences_length by blast
qed


theorem VP8_key_frame_path_witness:
  "TemporalIdx (test_header 1 1 0) \<noteq> NoTemporalIdx
   \<and> TL0PicIdx (test_header 1 1 0) \<noteq> NoTL0PicIdx
   \<and> PictureID (test_header 1 1 0) \<noteq> NoPictureID
   \<and> frame_FrameType (test_frame 1 1 FrameTypeKey) = FrameTypeKey
   \<and> clampTid (TemporalIdx (test_header 1 1 0)) = 1
   \<and> snd (pictureID_Unwrap (pictureIDUnwrapper vp8_after_key) (PictureID (test_header 1 1 0))) = 1
   \<and> snd (tl0PicIdx_Unwrap (tl0Unwrapper vp8_after_key) (TL0PicIdx (test_header 1 1 0))) = 0
   \<and> VP8_ManageFrame vp8_after_key (Some (test_frame 1 1 FrameTypeKey)) (Some (test_header 1 1 0))
       = VP8_handleDeltaFrame
           (vp8_after_key
              \<lparr>pictureIDUnwrapper :=
                 fst (pictureID_Unwrap (pictureIDUnwrapper vp8_after_key) (PictureID (test_header 1 1 0))),
               tl0Unwrapper :=
                 fst (tl0PicIdx_Unwrap (tl0Unwrapper vp8_after_key) (TL0PicIdx (test_header 1 1 0)))\<rparr>)
           ((test_frame 1 1 FrameTypeKey)\<lparr>ID := 1\<rparr>) (test_header 1 1 0) 1 0 1
   \<and> map_option (\<lambda>(g, out). (map (\<lambda>e. (ID e, NumReferences e, References e ! 0)) out, layerInfo g))
        (VP8_ManageFrame vp8_after_key (Some (test_frame 1 1 FrameTypeKey))
           (Some (test_header 1 1 0)))
       = Some ([(1, 1, 0)], [(0, [1, 2, 0, 0])])
   \<and> snd (pictureID_Unwrap (pictureIDUnwrapper NewVP8RefFinder) (PictureID (test_header 1 1 0))) = 1
   \<and> snd (tl0PicIdx_Unwrap (tl0Unwrapper NewVP8RefFinder) (TL0PicIdx (test_header 1 1 0))) = 0
   \<and> \<not> vp8_gotInitialFrame NewVP8RefFinder
   \<and> VP8_ManageFrame NewVP8RefFinder (Some (test_frame 1 1 FrameTypeKey)) (Some (test_header 1 1 0))
       = Some (VP8_stashFrame
                 (NewVP8RefFinder
                    \<lparr>pictureIDUnwrapper :=
                       fst (pictureID_Unwrap (pictureIDUnwrapper NewVP8RefFinder)
                              (PictureID (test_header 1 1 0))),
                     tl0Unwrapper :=
                       fst (tl0PicIdx_Unwrap (tl0Unwrapper NewVP8RefFinder)
                              (TL0PicIdx (test_header 1 1 0)))\<rparr>)
                 ((test_frame 1 1 FrameTypeKey)\<lparr>ID := 1\<rparr>) (test_header 1 1 0) 1 0, [])
   \<and> map_option (\<lambda>(g, out). (out, vp8_stashedFrames g, layerInfo g))
        (VP8_ManageFrame NewVP8RefFinder (Some (test_frame 1 1 FrameTypeKey))
           (Some (test_header 1 1 0)))
       = Some ([], [\<lparr>vFrame = (test_frame 1 1 FrameTypeKey)\<lparr>ID := 1\<rparr>,
                     vHeader = test_header 1 1 0, unwrappedPID = 1, unwrappedTL0 = 0\<rparr>], [])"
proof -
  let ?h = "test_header 1 1 0"
  let ?fr = "test_frame 1 1 FrameTypeKey"
  let ?pu = "fst (pictureID_Unwrap (pictureIDUnwrapper vp8_after_key) (PictureID ?h))"
  let ?tu = "fst (tl0PicIdx_Unwrap (tl0Unwrapper vp8_after_key) (TL0PicIdx ?h))"
  let ?pn = "fst (pictureID_Unwrap (pictureIDUnwrapper NewVP8RefFinder) (PictureID ?h))"
  let ?tn = "fst (tl0PicIdx_Unwrap (tl0Unwrapper NewVP8RefFinder) (TL0PicIdx ?h))"
  have h1: "TemporalIdx ?h \<noteq> NoTemporalIdx" and h2: "TL0PicIdx ?h \<noteq> NoTL0PicIdx"
    and h3: "PictureID ?h \<noteq> NoPictureID"
    by (simp_all add: test_header_def NoTemporalIdx_def NoTL0PicIdx_def NoPictureID_def)
  have k: "frame_FrameType ?fr = FrameTypeKey" by (simp add: test_frame_def)
  have c: "clampTid (TemporalIdx ?h) = 1"
    by (simp add: clampTid_def test_header_def maxTemporalLayers_def)
  have p: "snd (pictureID_Unwrap (pictureIDUnwrapper vp8_after_key) (PictureID ?h)) = 1"
    by code_simp
  have t: "snd (tl0PicIdx_Unwrap (tl0Unwrapper vp8_after_key) (TL0PicIdx ?h)) = 0"
    by code_simp
  have pe: "pictureID_Unwrap (pictureIDUnwrapper vp8_after_key) (PictureID ?h) = (?pu, 1)"
    using p by (metis prod.collapse)
  have te: "tl0PicIdx_Unwrap (tl0Unwrapper vp8_after_key) (TL0PicIdx ?h) = (?tu, 0)"
    using t by (metis prod.collapse)
  have "VP8_ManageFrame vp8_after_key (Some ?fr) (Some ?h)
       = (if frame_FrameType ?fr = FrameTypeKey \<and> clampTid (TemporalIdx ?h) = 0
          then VP8_handleKeyframe (vp8_after_key\<lparr>pictureIDUnwrapper := ?pu, tl0Unwrapper := ?tu\<rparr>)
                 (?fr\<lparr>ID := 1\<rparr>) ?h 1 0 (clampTid (TemporalIdx ?h))
          else VP8_handleDeltaFrame (vp8_after_key\<lparr>pictureIDUnwrapper := ?pu, tl0Unwrapper := ?tu\<rparr>)
                 (?fr\<lparr>ID := 1\<rparr>) ?h 1 0 (clampTid (TemporalIdx ?h)))"
    using VP8_key_frame_path [OF pe te, of ?fr] h1 h2 h3 by simp
  then have d: "VP8_ManageFrame vp8_after_key (Some ?fr) (Some ?h)
       = VP8_handleDeltaFrame (vp8_after_key\<lparr>pictureIDUnwrapper := ?pu, tl0Unwrapper := ?tu\<rparr>)
                 (?fr\<lparr>ID := 1\<rparr>) ?h 1 0 1"
    unfolding c by simp
  have e: "map_option (\<lambda>(g, out). (map (\<lambda>e. (ID e, NumReferences e, References e ! 0)) out, layerInfo g))
        (VP8_ManageFrame vp8_after_key (Some ?fr) (Some ?h))
       = Some ([(1, 1, 0)], [(0, [1, 2, 0, 0])])"
    by code_simp
  have p': "snd (pictureID_Unwrap (pictureIDUnwrapper NewVP8RefFinder) (PictureID ?h)) = 1"
    by code_simp
  have t': "snd (tl0PicIdx_Unwrap (tl0Unwrapper NewVP8RefFinder) (TL0PicIdx ?h)) = 0"
    by code_simp
  have pe': "pictureID_Unwrap (pictureIDUnwrapper NewVP8RefFinder) (PictureID ?h) = (?pn, 1)"
    using p' by (metis prod.collapse)
  have te': "tl0PicIdx_Unwrap (tl0Unwrapper NewVP8RefFinder) (TL0PicIdx ?h) = (?tn, 0)"
    using t' by (metis prod.collapse)
  have g: "\<not> vp8_gotInitialFrame NewVP8RefFinder" by (simp add: NewVP8RefFinder_def)
  have c0: "clampTid (TemporalIdx ?h) \<noteq> 0" using c by simp
  have z: "(0::int) \<le> 1" "(0::int) \<le> 0" by simp_all
  have s: "VP8_ManageFrame NewVP8RefFinder (Some ?fr) (Some ?h)
       = Some (VP8_stashFrame (NewVP8RefFinder\<lparr>pictureIDUnwrapper := ?pn, tl0Unwrapper := ?tn\<rparr>)
                 (?fr\<lparr>ID := 1\<rparr>) ?h 1 0, [])"
    using VP8_key_frame_path [OF pe' te', of ?fr] h1 h2 h3 k c0 g z by blast
  have e': "map_option (\<lambda>(g, out). (out, vp8_stashedFrames g, layerInfo g))
        (VP8_ManageFrame NewVP8RefFinder (Some ?fr) (Some ?h))
       = Some ([], [\<lparr>vFrame = ?fr\<lparr>ID := 1\<rparr>, vHeader = ?h,
                     unwrappedPID = 1, unwrappedTL0 = 0\<rparr>], [])"
    by code_simp
  show ?thesis by (intro conjI h1 h2 h3 k c p t d e p' t' g s e')
qed

text \<open>
  Claim C10 as stated fails for a key frame whose unwrapped picture identifier is
  negative.  After the key frame with picture identifier 0, temporal index 0 and
  TL0PICIDX 0, a key frame with picture identifier 32767 and temporal index 1 unwraps to
  the picture identifier \<open>-1\<close>: \<^verbatim>\<open>ManageFrame\<close> returns no frame, the stash stays
  empty, and neither the layer map nor the last picture identifier changes.  The frame
  is neither stashed nor given references.
\<close>

theorem VP8_key_frame_dropped_counterexample:
  "map_option fst (VP8_ManageFrame NewVP8RefFinder (Some (test_frame 0 0 FrameTypeKey))
                     (Some (test_header 0 0 0)))
     = Some vp8_after_key
   \<and> frame_FrameType (test_frame 1 1 FrameTypeKey) = FrameTypeKey
   \<and> clampTid (TemporalIdx (test_header 32767 1 0)) = 1
   \<and> snd (pictureID_Unwrap (pictureIDUnwrapper vp8_after_key)
            (PictureID (test_header 32767 1 0))) = - 1
   \<and> map_option (\<lambda>(g, out). (out, vp8_stashedFrames g, layerInfo g, lastPictureID g))
       (VP8_ManageFrame vp8_after_key (Some (test_frame 1 1 FrameTypeKey))
          (Some (test_header 32767 1 0)))
     = Some ([], [], [(0, [1, 0, 0, 0])], 0)"
proof -
  have "frame_FrameType (test_frame 1 1 FrameTypeKey) = FrameTypeKey"
    by (simp add: test_frame_def)
  moreover have "clampTid (TemporalIdx (test_header 32767 1 0)) = 1"
    by (simp add: clampTid_def test_header_def maxTemporalLayers_def)
  moreover have "snd (pictureID_Unwrap (pictureIDUnwrapper vp8_after_key)
            (PictureID (test_header 32767 1 0))) = - 1"
    by code_simp
  moreover have "map_option (\<lambda>(g, out). (out, vp8_stashedFrames g, layerInfo g, lastPictureID g))
       (VP8_ManageFrame vp8_after_key (Some (test_frame 1 1 FrameTypeKey))
          (Some (test_header 32767 1 0)))
     = Some ([], [], [(0, [1, 0, 0, 0])], 0)"
    by code_simp
  ultimately show ?thesis using vp8_after_key_reached by simp
qed

end
